theory Spec2Isabelle
  imports Complex_Main "HOL-Library.Signed_Division"
begin

section \<open>Mesh generation and decomposition of PENNANT (GenerateMesh.cc)\<close>

text \<open>
  The development embeds the class \<^verbatim>\<open>GenerateMesh\<close>: the partition planner
  \<^verbatim>\<open>calcPartitions\<close>, the local geometry calculator \<^verbatim>\<open>calcLocalConstants\<close> with the
  mu permutation, the three topology generators, the three halo enumerators and the
  local-to-global point ID mapping.

  Conventions of the embedding.
  \<^item> A C++ \<^verbatim>\<open>int\<close> is a HOL \<^typ>\<open>int\<close>. Where \<^verbatim>\<open>calcLocalConstants\<close> and \<^verbatim>\<open>muPermutation\<close>
    form sums and products of the members, a result outside the 32-bit range is a signed
    overflow, which is undefined behaviour (\<open>int32\<close>). The generators and the halo
    enumerators compute with the sizes and indices of one rank; where a property depends
    on it, a hypothesis keeps them within the range. Integer division and remainder
    truncate towards zero (\<open>sdiv\<close>, \<open>smod\<close>).
  \<^item> A \<^verbatim>\<open>double\<close> is a HOL \<^typ>\<open>real\<close>: rounding is not modelled. Only coordinate values
    and the starting estimate of the partition planner are doubles. The one division by
    zero that a mesh can reach, in the hex generator with one zone on an axis, is treated
    by cases (\<open>hex_clamp\<close>).
  \<^item> A \<^verbatim>\<open>std::vector\<close> is a list; \<^verbatim>\<open>push_back\<close> appends at the end.
  \<^item> A run that does not return normally is a value \<open>Inl e\<close>: a failed \<^verbatim>\<open>assert\<close>, an
    operation with undefined behaviour (a subscript out of range, \<^verbatim>\<open>back()\<close> of an empty
    vector, an integer division by zero, a signed overflow) or a vector constructed with a
    negative size.
\<close>

subsection \<open>Results and loops\<close>

datatype failure = AssertionFailure | UndefinedBehaviour | LengthError

type_synonym 'a result = "failure + 'a"

definition rbind :: "'a result \<Rightarrow> ('a \<Rightarrow> 'b result) \<Rightarrow> 'b result" where
  "rbind r f = (case r of Inl e \<Rightarrow> Inl e | Inr x \<Rightarrow> f x)"

text \<open>\<^verbatim>\<open>v[i]\<close> as a read, \<^verbatim>\<open>v[i] = x\<close> as a write, \<^verbatim>\<open>v.back()\<close>, \<^verbatim>\<open>a / b\<close> and \<^verbatim>\<open>a % b\<close>.\<close>

definition vget :: "'a list \<Rightarrow> int \<Rightarrow> 'a result" where
  "vget v i = (if 0 \<le> i \<and> i < int (length v) then Inr (v ! nat i) else Inl UndefinedBehaviour)"

definition vput :: "'a list \<Rightarrow> int \<Rightarrow> 'a \<Rightarrow> 'a list result" where
  "vput v i x = (if 0 \<le> i \<and> i < int (length v) then Inr (v[nat i := x]) else Inl UndefinedBehaviour)"

definition vback :: "'a list \<Rightarrow> 'a result" where
  "vback v = (if v = [] then Inl UndefinedBehaviour else Inr (last v))"

definition idiv :: "int \<Rightarrow> int \<Rightarrow> int result" where
  "idiv a b = (if b = 0 then Inl UndefinedBehaviour else Inr (a sdiv b))"

definition imod :: "int \<Rightarrow> int \<Rightarrow> int result" where
  "imod a b = (if b = 0 then Inl UndefinedBehaviour else Inr (a smod b))"

text \<open>
  The value of an arithmetic expression of type \<^verbatim>\<open>int\<close>: a result that a 32-bit \<^verbatim>\<open>int\<close>
  cannot hold is a signed overflow.
\<close>

definition int32 :: "int \<Rightarrow> int result" where
  "int32 v = (if - 2147483648 \<le> v \<and> v \<le> 2147483647 then Inr v else Inl UndefinedBehaviour)"

text \<open>
  \<^verbatim>\<open>v.reserve(n)\<close> changes no element; with an \<^verbatim>\<open>int\<close> argument below zero the requested
  capacity exceeds \<^verbatim>\<open>max_size()\<close> and a \<^verbatim>\<open>length_error\<close> is thrown.
\<close>

definition reserving :: "int \<Rightarrow> 'a result \<Rightarrow> 'a result" where
  "reserving n r = (if n < 0 then Inl LengthError else r)"

text \<open>
  \<^verbatim>\<open>for (int i = a; i < b; ++i) body\<close> is \<open>forM [a..b - 1] body\<close> when the body can fail and
  \<open>fold body [a..b - 1]\<close> when it cannot; a \<^verbatim>\<open>continue\<close> is a body that returns its state.
\<close>

fun forM :: "'i list \<Rightarrow> ('i \<Rightarrow> 's \<Rightarrow> 's result) \<Rightarrow> 's \<Rightarrow> 's result" where
  "forM [] body s = Inr s"
| "forM (i # is) body s = (case body i s of Inl e \<Rightarrow> Inl e | Inr s' \<Rightarrow> forM is body s')"

subsection \<open>The object state\<close>

record mesh =
  meshtype :: string
  global_nzones_x :: int
  global_nzones_y :: int
  len_x :: real
  len_y :: real
  num_subregions :: int
  my_color :: int
  num_proc_x :: int
  num_proc_y :: int
  proc_index_x :: int
  proc_index_y :: int
  zone_x_offset :: int
  zone_y_offset :: int
  nzones_x :: int
  nzones_y :: int
  num_zones :: int
  num_points_x :: int
  num_points_y :: int
  global_perm :: "int list"
  global_deperm :: "int list"
  perm :: "int list"
  deperm :: "int list"

text \<open>
  The header \<^verbatim>\<open>GenerateMesh.hh\<close> is not part of the sources at hand. The three inline
  helpers it declares for the hex ID mapping are parameters of the embedding.
\<close>

record header_decls =
  yStart :: "mesh \<Rightarrow> int \<Rightarrow> int"
  xStart :: "mesh \<Rightarrow> int \<Rightarrow> int"
  numPointsPreviousRowsNonZeroJHex :: "mesh \<Rightarrow> int \<Rightarrow> int"

subsection \<open>The partition planner\<close>

text \<open>
  The two divisor searches of \<^verbatim>\<open>calcPartitions\<close>:
  \<^verbatim>\<open>while (num_subregions % n1 != 0) --n1;\<close> and
  \<^verbatim>\<open>while (num_subregions % n2 != 0) ++n2;\<close>.
  A search that never ends has the value \<open>None\<close>; a remainder by zero is undefined behaviour.
\<close>

partial_function (option) search_down :: "int \<Rightarrow> int \<Rightarrow> int result option" where
  "search_down P n1 =
     (if n1 = 0 then Some (Inl UndefinedBehaviour)
      else if P smod n1 \<noteq> 0 then search_down P (n1 - 1)
      else Some (Inr n1))"

partial_function (option) search_up :: "int \<Rightarrow> int \<Rightarrow> int result option" where
  "search_up P n2 =
     (if n2 = 0 then Some (Inl UndefinedBehaviour)
      else if P smod n2 \<noteq> 0 then search_up P (n2 + 1)
      else Some (Inr n2))"

text \<open>
  The macro \<^verbatim>\<open>NPX\<close> has its default definition \<^verbatim>\<open>(longside1 <= longside2 ? n1 : n2)\<close>.
  The two divisions \<^verbatim>\<open>num_subregions / n1\<close> and \<^verbatim>\<open>num_subregions / n2\<close> are integer
  divisions by a value for which the remainder has just been computed, so they are defined.
\<close>

definition NPX :: "real \<Rightarrow> real \<Rightarrow> int \<Rightarrow> int \<Rightarrow> int" where
  "NPX longside1 longside2 n1 n2 = (if longside1 \<le> longside2 then n1 else n2)"

definition calcPartitions :: "mesh \<Rightarrow> mesh result option" where
  "calcPartitions m =
     (let nx0 = real_of_int (global_nzones_x m);
          ny0 = real_of_int (global_nzones_y m);
          swapflag = (nx0 > ny0);
          nx = (if swapflag then ny0 else nx0);
          ny = (if swapflag then nx0 else ny0);
          n = sqrt (real_of_int (num_subregions m) * nx / ny);
          n1 = max \<lfloor>n + 1 / 10 ^ 12\<rfloor> 1
      in case search_down (num_subregions m) n1 of
           None \<Rightarrow> None
         | Some (Inl e) \<Rightarrow> Some (Inl e)
         | Some (Inr n1) \<Rightarrow>
             (case search_up (num_subregions m) \<lceil>n - 1 / 10 ^ 12\<rceil> of
                None \<Rightarrow> None
              | Some (Inl e) \<Rightarrow> Some (Inl e)
              | Some (Inr n2) \<Rightarrow>
                  let longside1 = max (nx / real_of_int n1)
                                      (ny / real_of_int (num_subregions m sdiv n1));
                      longside2 = max (nx / real_of_int n2)
                                      (ny / real_of_int (num_subregions m sdiv n2));
                      npx = NPX longside1 longside2 n1 n2
                  in Some (rbind (idiv (num_subregions m) npx) (\<lambda>npy.
                       Inr (if swapflag then m\<lparr>num_proc_x := npy, num_proc_y := npx\<rparr>
                            else m\<lparr>num_proc_x := npx, num_proc_y := npy\<rparr>)))))"

subsection \<open>The mu permutation\<close>

definition linearize :: "int \<Rightarrow> int \<Rightarrow> int \<Rightarrow> int" where
  "linearize num_pts_x x y = y * num_pts_x + x"

text \<open>\<^verbatim>\<open>perm[k] = cnt++\<close> on the pair of the vector and the counter.\<close>

definition assign :: "int \<Rightarrow> int list \<times> int \<Rightarrow> (int list \<times> int) result" where
  "assign k s = (case s of (prm, cnt) \<Rightarrow> rbind (vput prm k cnt) (\<lambda>prm'. Inr (prm', cnt + 1)))"

text \<open>The body of the loop over the blocks: left edge, top, right edge, bottom edge, middle.\<close>

definition mu_block :: "int \<Rightarrow> int \<Rightarrow> int \<Rightarrow> int \<Rightarrow> int \<Rightarrow> int list \<times> int \<Rightarrow> (int list \<times> int) result" where
  "mu_block num_pts_x width_x width_y block_y block_x s =
     rbind (if block_x = 0
            then forM [1..width_y]
                   (\<lambda>dy. assign (linearize num_pts_x 0 (width_y * block_y + dy))) s
            else Inr s) (\<lambda>s.
     rbind (if block_y = 0
            then forM [0..width_x - 1]
                   (\<lambda>dx. assign (linearize num_pts_x (block_x * width_x + 1 + dx) (width_y * block_y))) s
            else Inr s) (\<lambda>s.
     rbind (forM [0..width_y - 1]
              (\<lambda>dy. assign (linearize num_pts_x (width_x * (block_x + 1)) (width_y * block_y + 1 + dy))) s) (\<lambda>s.
     rbind (forM [0..width_x - 2]
              (\<lambda>dx. assign (linearize num_pts_x (width_x * block_x + 1 + dx) (width_y * (block_y + 1)))) s) (\<lambda>s.
     forM [1..width_y - 1]
       (\<lambda>dy. forM [1..width_x - 1]
          (\<lambda>dx. assign (linearize num_pts_x (width_x * block_x + dx) (width_y * block_y + dy)))) s))))"

definition muPermutation :: "int \<Rightarrow> int \<Rightarrow> int \<Rightarrow> int \<Rightarrow> int list result" where
  "muPermutation num_pts_x num_pts_y num_blocks_x num_blocks_y =
     rbind (idiv (num_pts_x - 1) num_blocks_x) (\<lambda>width_x.
     rbind (idiv (num_pts_y - 1) num_blocks_y) (\<lambda>width_y.
       if \<not> (width_x * num_blocks_x + 1 = num_pts_x \<or> num_blocks_x = 1) then Inl AssertionFailure
       else if \<not> (width_y * num_blocks_y + 1 = num_pts_y \<or> num_blocks_y = 1) then Inl AssertionFailure
       else rbind (int32 (num_pts_x * num_pts_y)) (\<lambda>np.
            if np < 0 then Inl LengthError
            else rbind (assign 0 (replicate (nat np) 0, 0)) (\<lambda>s.
                 rbind (forM [0..num_blocks_y - 1]
                          (\<lambda>block_y. forM [0..num_blocks_x - 1]
                             (mu_block num_pts_x width_x width_y block_y)) s) (\<lambda>(prm, cnt).
                   if cnt \<noteq> np then Inl AssertionFailure else Inr prm)))))"

subsection \<open>The local geometry calculator\<close>

text \<open>
  \<^verbatim>\<open>deperm.reserve(perm.size())\<close> changes the capacity of the vector and neither its size
  nor its elements. The loop \<^verbatim>\<open>for (i ...) deperm[perm[i]] = i;\<close> that follows writes
  through \<^verbatim>\<open>operator[]\<close>; a subscript that is not below \<^verbatim>\<open>size()\<close> is undefined behaviour.
\<close>

definition reserve :: "nat \<Rightarrow> int list \<Rightarrow> int list" where
  "reserve n v = v"

definition invert :: "int list \<Rightarrow> int list \<Rightarrow> int list result" where
  "invert prm storage =
     forM [0..int (length prm) - 1] (\<lambda>i d. rbind (vget prm i) (\<lambda>k. vput d k i)) storage"

text \<open>
  The first half of \<^verbatim>\<open>calcLocalConstants\<close>: the position of the rank in the processor grid,
  the zone offsets and the zone and point counts.
\<close>

definition local_extents :: "mesh \<Rightarrow> int \<Rightarrow> mesh result" where
  "local_extents m color =
     rbind (imod color (num_proc_x m)) (\<lambda>pix.
     rbind (idiv color (num_proc_x m)) (\<lambda>piy.
     rbind (int32 (pix * global_nzones_x m)) (\<lambda>a.
     rbind (idiv a (num_proc_x m)) (\<lambda>zxo.
     rbind (int32 (pix + 1)) (\<lambda>pix1.
     rbind (int32 (pix1 * global_nzones_x m)) (\<lambda>b.
     rbind (idiv b (num_proc_x m)) (\<lambda>zxstop.
     rbind (int32 (zxstop - zxo)) (\<lambda>nzx.
     rbind (int32 (piy * global_nzones_y m)) (\<lambda>c.
     rbind (idiv c (num_proc_y m)) (\<lambda>zyo.
     rbind (int32 (piy + 1)) (\<lambda>piy1.
     rbind (int32 (piy1 * global_nzones_y m)) (\<lambda>d.
     rbind (idiv d (num_proc_y m)) (\<lambda>zystop.
     rbind (int32 (zystop - zyo)) (\<lambda>nzy.
     rbind (int32 (nzx * nzy)) (\<lambda>nz.
     rbind (int32 (nzx + 1)) (\<lambda>npx.
     rbind (int32 (nzy + 1)) (\<lambda>npy.
       Inr (m\<lparr>my_color := color, proc_index_x := pix, proc_index_y := piy,
              zone_x_offset := zxo, nzones_x := nzx,
              zone_y_offset := zyo, nzones_y := nzy,
              num_zones := nz, num_points_x := npx, num_points_y := npy\<rparr>))))))))))))))))))"

text \<open>
  \<^verbatim>\<open>calcLocalConstants\<close>: the extents, then the global permutation and the loop that writes
  its inverse, then the local permutation and the loop that writes its inverse.
\<close>

definition calcLocalConstants :: "mesh \<Rightarrow> int \<Rightarrow> mesh result" where
  "calcLocalConstants m color =
     rbind (local_extents m color) (\<lambda>m.
     rbind (int32 (global_nzones_x m + 1)) (\<lambda>gx.
     rbind (int32 (global_nzones_y m + 1)) (\<lambda>gy.
     rbind (muPermutation gx gy (num_proc_x m) (num_proc_y m)) (\<lambda>gperm.
     rbind (invert gperm (reserve (length gperm) (global_deperm m))) (\<lambda>gdeperm.
     rbind (muPermutation (num_points_x m) (num_points_y m) 1 1) (\<lambda>lperm.
     rbind (invert lperm (reserve (length lperm) (deperm m))) (\<lambda>ldeperm.
       Inr (m\<lparr>global_perm := gperm, global_deperm := gdeperm,
              perm := lperm, deperm := ldeperm\<rparr>))))))))"

text \<open>
  The constructor: the member initialisers, then \<^verbatim>\<open>calcPartitions\<close> and
  \<^verbatim>\<open>calcLocalConstants(my_color)\<close>. The members that have no initialiser are written by these
  two calls before they are read; \<open>members\<close> gives them the value \<open>0\<close> and the four vectors
  start empty.
\<close>

definition members :: "string \<Rightarrow> int \<Rightarrow> int \<Rightarrow> real \<Rightarrow> real \<Rightarrow> int \<Rightarrow> int \<Rightarrow> mesh" where
  "members mtype nzx nzy lx ly ntasks task_id =
     \<lparr>meshtype = mtype, global_nzones_x = nzx, global_nzones_y = nzy, len_x = lx, len_y = ly,
      num_subregions = ntasks, my_color = task_id, num_proc_x = 0, num_proc_y = 0,
      proc_index_x = 0, proc_index_y = 0, zone_x_offset = 0, zone_y_offset = 0,
      nzones_x = 0, nzones_y = 0, num_zones = 0, num_points_x = 0, num_points_y = 0,
      global_perm = [], global_deperm = [], perm = [], deperm = []\<rparr>"

definition GenerateMesh :: "string \<Rightarrow> int \<Rightarrow> int \<Rightarrow> real \<Rightarrow> real \<Rightarrow> int \<Rightarrow> int \<Rightarrow> mesh result option" where
  "GenerateMesh mtype nzx nzy lx ly ntasks task_id =
     (case calcPartitions (members mtype nzx nzy lx ly ntasks task_id) of
        None \<Rightarrow> None
      | Some (Inl e) \<Rightarrow> Some (Inl e)
      | Some (Inr m) \<Rightarrow> Some (calcLocalConstants m (my_color m)))"

subsection \<open>The topology generators\<close>

type_synonym double2 = "real \<times> real"

text \<open>
  The zone loops of the three generators extend \<^verbatim>\<open>zonestart\<close>, \<^verbatim>\<open>zonesize\<close> and
  \<^verbatim>\<open>zonepoints\<close>; \<open>push_zone v\<close> is the common step: the start offset is the current size of
  \<^verbatim>\<open>zonepoints\<close>, the size is the number of vertices, and the vertices are appended.
\<close>

type_synonym zones = "int list \<times> int list \<times> int list"

definition push_zone :: "int list \<Rightarrow> zones \<Rightarrow> zones" where
  "push_zone v z =
     (case z of (zonestart, zonesize, zonepoints) \<Rightarrow>
        (zonestart @ [int (length zonepoints)], zonesize @ [int (length v)], zonepoints @ v))"

text \<open>\<^verbatim>\<open>pointpos.resize(np)\<close>: a negative \<open>np\<close> is a size beyond \<^verbatim>\<open>max_size()\<close>.\<close>

definition resize :: "int \<Rightarrow> double2 list \<Rightarrow> double2 list result" where
  "resize np v =
     (if np < 0 then Inl LengthError
      else Inr (take (nat np) v @ replicate (nat np - length v) (0, 0)))"

definition rect_points :: "mesh \<Rightarrow> double2 list \<Rightarrow> double2 list result" where
  "rect_points m pointpos =
     rbind (resize (num_points_x m * num_points_y m) pointpos) (\<lambda>pointpos.
       let dx = len_x m / real_of_int (global_nzones_x m);
           dy = len_y m / real_of_int (global_nzones_y m)
       in forM [0..num_points_y m - 1] (\<lambda>j.
            let y = dy * real_of_int (j + zone_y_offset m)
            in forM [0..num_points_x m - 1] (\<lambda>i pointpos.
                 let x = dx * real_of_int (i + zone_x_offset m)
                 in rbind (vget (perm m) (j * num_points_x m + i)) (\<lambda>k. vput pointpos k (x, y))))
          pointpos)"

definition rect_zone :: "mesh \<Rightarrow> int \<Rightarrow> int \<Rightarrow> zones \<Rightarrow> zones result" where
  "rect_zone m j i z =
     (let p0 = j * num_points_x m + i
      in rbind (vget (perm m) p0) (\<lambda>a.
         rbind (vget (perm m) (p0 + 1)) (\<lambda>b.
         rbind (vget (perm m) (p0 + num_points_x m + 1)) (\<lambda>c.
         rbind (vget (perm m) (p0 + num_points_x m)) (\<lambda>d.
           Inr (push_zone [a, b, c, d] z))))))"

definition generateRect :: "mesh \<Rightarrow> double2 list \<Rightarrow> zones \<Rightarrow> (double2 list \<times> zones) result" where
  "generateRect m pointpos z =
     rbind (rect_points m pointpos) (\<lambda>pointpos.
     reserving (num_zones m) (reserving (4 * num_zones m) (
     rbind (forM [0..nzones_y m - 1] (\<lambda>j. forM [0..nzones_x m - 1] (rect_zone m j)) z) (\<lambda>z.
       Inr (pointpos, z)))))"

definition pie_points :: "mesh \<Rightarrow> double2 list \<Rightarrow> double2 list" where
  "pie_points m pointpos =
     (let dth = len_x m / real_of_int (global_nzones_x m);
          dr = len_y m / real_of_int (global_nzones_y m)
      in fold (\<lambda>j pointpos.
           if j + zone_y_offset m = 0 then pointpos @ [(0, 0)]
           else let r = dr * real_of_int (j + zone_y_offset m)
                in fold (\<lambda>i pointpos.
                     let th = dth * real_of_int (global_nzones_x m - (i + zone_x_offset m))
                     in pointpos @ [(r * cos th, r * sin th)])
                   [0..num_points_x m - 1] pointpos)
         [0..num_points_y m - 1] pointpos)"

text \<open>The vertices that the pie generator pushes for the zone at \<open>(i, j)\<close>.\<close>

definition pie_vertices :: "mesh \<Rightarrow> int \<Rightarrow> int \<Rightarrow> int list" where
  "pie_vertices m j i =
     (let p00 = j * num_points_x m + i;
          p0 = (if proc_index_y m = 0 then p00 - (num_points_x m - 1) else p00)
      in if j + zone_y_offset m = 0
         then [0, p0 + num_points_x m + 1, p0 + num_points_x m]
         else [p0, p0 + 1, p0 + num_points_x m + 1, p0 + num_points_x m])"

definition pie_zone :: "mesh \<Rightarrow> int \<Rightarrow> int \<Rightarrow> zones \<Rightarrow> zones" where
  "pie_zone m j i z = push_zone (pie_vertices m j i) z"

definition generatePie :: "mesh \<Rightarrow> double2 list \<Rightarrow> zones \<Rightarrow> (double2 list \<times> zones) result" where
  "generatePie m pointpos z =
     (let np = (if proc_index_y m = 0 then num_points_x m * (num_points_y m - 1) + 1
                else num_points_x m * num_points_y m)
      in reserving np (reserving (num_zones m) (reserving (4 * num_zones m) (
           Inr (pie_points m pointpos,
                fold (\<lambda>j. fold (pie_zone m j) [0..nzones_x m - 1]) [0..nzones_y m - 1] z)))))"

text \<open>
  The hex generator computes \<^verbatim>\<open>x = max(0., min(len_x, dx * ((double)gi - 0.5)))\<close> with
  \<^verbatim>\<open>dx = len_x / (double)(global_nzones_x - 1)\<close>, and \<open>y\<close> likewise. With one zone on the
  axis the divisor is \<open>0.0\<close>: the quotient is an infinity with the sign of the extent (not a
  number when the extent is 0) and so is its product with \<open>gi - 0.5\<close>, up to the sign of that
  factor. \<^verbatim>\<open>min\<close> and \<^verbatim>\<open>max\<close> return their first argument unless the comparison \<open><\<close> holds, so
  the result is a number again: the extent, if it is positive and \<open>gi\<close> is at least 1, and 0
  otherwise.
\<close>

definition hex_clamp :: "real \<Rightarrow> int \<Rightarrow> int \<Rightarrow> real" where
  "hex_clamp len n g =
     (if n - 1 = 0 then (if 1 \<le> g then max 0 len else 0)
      else max 0 (min len (len / real_of_int (n - 1) * (real_of_int g - 1 / 2))))"

text \<open>
  The points of one grid position, in the order of the four branches of the source;
  \<^verbatim>\<open>pbase[j]\<close> is the size of \<^verbatim>\<open>pointpos\<close> when row \<open>j\<close> starts. The offsets \<open>dx / 6\<close> and
  \<open>dy / 6\<close> of the last three branches are numbers when the divisors are not zero; in the
  state of a rank a zero divisor means one zone on that axis, and then every position is on
  the global boundary and takes the first branch.
\<close>

definition hex_position :: "mesh \<Rightarrow> int \<Rightarrow> int \<Rightarrow> double2 list" where
  "hex_position m j i =
     (let dx = len_x m / real_of_int (global_nzones_x m - 1);
          dy = len_y m / real_of_int (global_nzones_y m - 1);
          gj = j + zone_y_offset m;
          y = hex_clamp (len_y m) (global_nzones_y m) gj;
          gi = i + zone_x_offset m;
          x = hex_clamp (len_x m) (global_nzones_x m) gi
      in if gi = 0 \<or> gi = global_nzones_x m \<or> gj = 0 \<or> gj = global_nzones_y m then [(x, y)]
         else if i = nzones_x m \<and> j = 0 then [(x - dx / 6, y + dy / 6)]
         else if i = 0 \<and> j = nzones_y m then [(x + dx / 6, y - dy / 6)]
         else [(x - dx / 6, y + dy / 6), (x + dx / 6, y - dy / 6)])"

definition hex_points :: "mesh \<Rightarrow> double2 list \<Rightarrow> (int list \<times> double2 list) result" where
  "hex_points m pointpos =
     (if num_points_y m < 0 then Inl LengthError
      else Inr (fold (\<lambda>j (pbase, pointpos).
                   (pbase[nat j := int (length pointpos)],
                    fold (\<lambda>i pointpos. pointpos @ hex_position m j i)
                      [0..num_points_x m - 1] pointpos))
                 [0..num_points_y m - 1] (replicate (nat (num_points_y m)) 0, pointpos)))"

text \<open>\<^verbatim>\<open>v.erase(v.begin() + k)\<close>; the source erases only positions that exist.\<close>

definition erase :: "nat \<Rightarrow> int list \<Rightarrow> int list" where
  "erase k v = take k v @ drop (Suc k) v"

definition hex_vertices :: "mesh \<Rightarrow> int \<Rightarrow> int \<Rightarrow> int \<Rightarrow> int \<Rightarrow> int list" where
  "hex_vertices m pbasel pbaseh j i =
     (let gj = j + zone_y_offset m;
          gi = i + zone_x_offset m;
          v1 = pbasel + 2 * i;
          v5 = pbaseh + 2 * i;
          v4 = v5 + 1;
          v = [v1 - 1, v1, v1 + 1, v4 + 1, v4, v5]
      in if gj = 0 then
           let v = v[0 := pbasel + i];
               v = v[2 := v ! 0 + 1];
               v = (if gi = global_nzones_x m - 1 then erase 3 v else v)
           in erase 1 v
         else if gj = global_nzones_y m - 1 then
           let v = v[5 := pbaseh + i];
               v = v[3 := v ! 5 + 1];
               v = erase 4 v
           in if gi = 0 then erase 0 v else v
         else if gi = 0 then erase 0 v
         else if gi = global_nzones_x m - 1 then erase 3 v
         else v)"

definition hex_zone_row :: "mesh \<Rightarrow> int list \<Rightarrow> int \<Rightarrow> zones \<Rightarrow> zones result" where
  "hex_zone_row m pbase j z =
     rbind (vget pbase j) (\<lambda>pbasel0.
     rbind (vget pbase (j + 1)) (\<lambda>pbaseh0.
       let gj = j + zone_y_offset m;
           pbasel = (if proc_index_x m > 0 \<and> gj > 0 then pbasel0 + 1 else pbasel0);
           pbaseh = (if proc_index_x m > 0 \<and> j < nzones_y m - 1 then pbaseh0 + 1 else pbaseh0)
       in Inr (fold (\<lambda>i. push_zone (hex_vertices m pbasel pbaseh j i)) [0..nzones_x m - 1] z)))"

definition generateHex :: "mesh \<Rightarrow> double2 list \<Rightarrow> zones \<Rightarrow> (double2 list \<times> zones) result" where
  "generateHex m pointpos z =
     reserving (2 * num_points_x m * num_points_y m) (
     rbind (hex_points m pointpos) (\<lambda>(pbase, pointpos).
     reserving (num_zones m) (reserving (6 * num_zones m) (
     rbind (forM [0..nzones_y m - 1] (hex_zone_row m pbase) z) (\<lambda>z.
       Inr (pointpos, z))))))"

definition allowable_mesh_type :: string where
  "allowable_mesh_type = ''!@#$&!*()@#$''"

text \<open>
  \<^verbatim>\<open>generate\<close> receives \<^verbatim>\<open>pointpos\<close>, \<^verbatim>\<open>zonepoints_ptr_CRS\<close> and \<^verbatim>\<open>zonepoints\<close> by reference;
  \<^verbatim>\<open>zonesize\<close> is a local vector that starts empty. \<open>mesh_type_specific\<close> is the first
  statement of \<^verbatim>\<open>generate\<close>, the dispatch on the family tag; its last branch is
  \<^verbatim>\<open>assert(meshtype != allowable_mesh_type)\<close>. The terminal pointer is pushed in every case.
\<close>

definition mesh_type_specific :: "mesh \<Rightarrow> double2 list \<Rightarrow> zones \<Rightarrow> (double2 list \<times> zones) result" where
  "mesh_type_specific m pointpos z =
     (if meshtype m = ''pie'' then generatePie m pointpos z
      else if meshtype m = ''rect'' then generateRect m pointpos z
      else if meshtype m = ''hex'' then generateHex m pointpos z
      else if meshtype m \<noteq> allowable_mesh_type then Inr (pointpos, z)
      else Inl AssertionFailure)"

definition generate ::
  "mesh \<Rightarrow> double2 list \<Rightarrow> int list \<Rightarrow> int list \<Rightarrow> (double2 list \<times> int list \<times> int list) result" where
  "generate m pointpos zonepoints_ptr_CRS zonepoints =
     rbind (mesh_type_specific m pointpos (zonepoints_ptr_CRS, [], zonepoints))
       (\<lambda>(pointpos, zonestart, zonesize, zonepoints).
          rbind (vback zonestart) (\<lambda>a.
          rbind (vback zonesize) (\<lambda>b.
            Inr (pointpos, zonestart @ [a + b], zonepoints))))"

subsection \<open>Local-to-global point IDs\<close>

definition pointLocalToGlobalIDPie :: "mesh \<Rightarrow> int \<Rightarrow> int result" where
  "pointLocalToGlobalIDPie m p =
     (if zone_y_offset m = 0 \<and> p = 0 then Inr 0
      else rbind
        (if zone_y_offset m = 0
         then rbind (idiv (p - 1) (num_points_x m)) (\<lambda>q.
                let py = q + 1 in Inr (p - (py - 1) * num_points_x m - 1, py))
         else rbind (idiv p (num_points_x m)) (\<lambda>py. Inr (p - py * num_points_x m, py)))
        (\<lambda>(px, py).
           Inr ((global_nzones_x m + 1) * (py + zone_y_offset m - 1) + 1 + px + zone_x_offset m)))"

definition pointLocalToGlobalIDRect :: "mesh \<Rightarrow> int \<Rightarrow> int result" where
  "pointLocalToGlobalIDRect m s =
     rbind (vget (deperm m) s) (\<lambda>p.
     rbind (idiv p (num_points_x m)) (\<lambda>py.
       let px = p - py * num_points_x m
       in vget (global_perm m) ((global_nzones_x m + 1) * (py + zone_y_offset m) + px + zone_x_offset m)))"

definition pointLocalToGlobalIDHex :: "header_decls \<Rightarrow> mesh \<Rightarrow> int \<Rightarrow> int result" where
  "pointLocalToGlobalIDHex decls m p =
     (let zone_y_start = yStart decls m (proc_index_y m);
          zone_y_stop = yStart decls m (proc_index_y m + 1);
          zone_x_start = xStart decls m (proc_index_x m);
          zone_x_stop = xStart decls m (proc_index_x m + 1);
          first_row_npts =
            (if zone_y_start = 0 then num_points_x m
             else (if zone_x_start = 0 then 2 * num_points_x m - 1 else 2 * num_points_x m) - 1);
          mid_rows_npts0 = (if zone_x_start = 0 then 2 * num_points_x m - 1 else 2 * num_points_x m);
          mid_rows_npts = (if zone_x_stop = global_nzones_x m then mid_rows_npts0 - 1 else mid_rows_npts0)
      in rbind
           (if p < first_row_npts then Inr (p, 0)
            else rbind (idiv (p - first_row_npts) mid_rows_npts) (\<lambda>q.
                   let j = q + 1 in Inr (p - first_row_npts - (j - 1) * mid_rows_npts, j)))
           (\<lambda>(i, j).
              let gj = j + zone_y_offset m;
                  g0 = (if gj = 0 then 0 else numPointsPreviousRowsNonZeroJHex decls m gj);
                  g1 = (if gj = 0 \<or> gj = global_nzones_y m then g0 + zone_x_offset m
                        else if zone_x_offset m \<noteq> 0 then g0 + (2 * zone_x_offset m - 1) else g0);
                  g2 = g1 + i
              in Inr (if gj = zone_y_stop \<and> zone_x_start \<noteq> 0 \<and> gj \<noteq> 0 \<and> gj \<noteq> global_nzones_y m
                      then g2 + 1 else g2)))"

definition pointLocalToGlobalID :: "header_decls \<Rightarrow> mesh \<Rightarrow> int \<Rightarrow> int result" where
  "pointLocalToGlobalID decls m p =
     (if meshtype m = ''pie'' then pointLocalToGlobalIDPie m p
      else if meshtype m = ''rect'' then pointLocalToGlobalIDRect m p
      else if meshtype m = ''hex'' then pointLocalToGlobalIDHex decls m p
      else Inr (- 1))"

subsection \<open>Halo enumeration\<close>

text \<open>The six vectors that the halo enumerators receive by reference and extend.\<close>

record halo =
  master_colors :: "int list"
  slaved_points_counts :: "int list"
  slaved_points :: "int list"
  slave_colors :: "int list"
  master_points_counts :: "int list"
  master_points :: "int list"

text \<open>
  The four edge loops of the rect enumerator have one shape: a cursor \<open>p\<close> that advances by a
  stride \<open>d\<close> in every iteration, the first iteration skipped when the corner belongs to the
  diagonal relation, and \<^verbatim>\<open>perm[p]\<close> pushed otherwise.
\<close>

definition rect_walk :: "int list \<Rightarrow> bool \<Rightarrow> int \<Rightarrow> int \<Rightarrow> int \<times> int list \<Rightarrow> (int \<times> int list) result" where
  "rect_walk prm skip d k s =
     (case s of (p, pts) \<Rightarrow>
        if k = 0 \<and> skip then Inr (p + d, pts)
        else rbind (vget prm p) (\<lambda>v. Inr (p + d, pts @ [v])))"

definition rect_slave_corner :: "mesh \<Rightarrow> halo \<Rightarrow> halo result" where
  "rect_slave_corner m h =
     (if proc_index_x m > 0 \<and> proc_index_y m > 0 then
        rbind (vget (perm m) 0) (\<lambda>v.
          Inr (h\<lparr>slaved_points := slaved_points h @ [v],
                master_colors := master_colors h @ [my_color m - num_proc_x m - 1],
                slaved_points_counts := slaved_points_counts h @ [1]\<rparr>))
      else Inr h)"

definition rect_slave_below :: "mesh \<Rightarrow> halo \<Rightarrow> halo result" where
  "rect_slave_below m h =
     (if proc_index_y m > 0 then
        rbind (forM [0..num_points_x m - 1] (rect_walk (perm m) (proc_index_x m \<noteq> 0) 1)
                 (0, slaved_points h)) (\<lambda>(p, pts).
          Inr (h\<lparr>slaved_points := pts,
                master_colors := master_colors h @ [my_color m - num_proc_x m],
                slaved_points_counts := slaved_points_counts h
                   @ [int (length pts) - int (length (slaved_points h))]\<rparr>))
      else Inr h)"

definition rect_slave_left :: "mesh \<Rightarrow> halo \<Rightarrow> halo result" where
  "rect_slave_left m h =
     (if proc_index_x m > 0 then
        rbind (forM [0..num_points_y m - 1]
                 (rect_walk (perm m) (proc_index_y m \<noteq> 0) (num_points_x m))
                 (0, slaved_points h)) (\<lambda>(p, pts).
          Inr (h\<lparr>slaved_points := pts,
                master_colors := master_colors h @ [my_color m - 1],
                slaved_points_counts := slaved_points_counts h
                   @ [int (length pts) - int (length (slaved_points h))]\<rparr>))
      else Inr h)"

definition rect_master_right :: "mesh \<Rightarrow> halo \<Rightarrow> halo result" where
  "rect_master_right m h =
     (if proc_index_x m < num_proc_x m - 1 then
        rbind (forM [0..num_points_y m - 1]
                 (rect_walk (perm m) (proc_index_y m \<noteq> 0) (num_points_x m))
                 (num_points_x m - 1, master_points h)) (\<lambda>(p, pts).
          Inr (h\<lparr>master_points := pts,
                slave_colors := slave_colors h @ [my_color m + 1],
                master_points_counts := master_points_counts h
                   @ [int (length pts) - int (length (master_points h))]\<rparr>))
      else Inr h)"

definition rect_master_above :: "mesh \<Rightarrow> halo \<Rightarrow> halo result" where
  "rect_master_above m h =
     (if proc_index_y m < num_proc_y m - 1 then
        rbind (forM [0..num_points_x m - 1] (rect_walk (perm m) (proc_index_x m > 0) 1)
                 ((num_points_y m - 1) * num_points_x m, master_points h)) (\<lambda>(p, pts).
          Inr (h\<lparr>master_points := pts,
                slave_colors := slave_colors h @ [my_color m + num_proc_x m],
                master_points_counts := master_points_counts h
                   @ [int (length pts) - int (length (master_points h))]\<rparr>))
      else Inr h)"

definition rect_master_corner :: "mesh \<Rightarrow> halo \<Rightarrow> halo result" where
  "rect_master_corner m h =
     (if proc_index_x m < num_proc_x m - 1 \<and> proc_index_y m < num_proc_y m - 1 then
        rbind (vget (perm m) (num_points_x m * num_points_y m - 1)) (\<lambda>v.
          Inr (h\<lparr>master_points := master_points h @ [v],
                slave_colors := slave_colors h @ [my_color m + num_proc_x m + 1],
                master_points_counts := master_points_counts h @ [1]\<rparr>))
      else Inr h)"

definition generateHaloPointsRect :: "mesh \<Rightarrow> halo \<Rightarrow> halo result" where
  "generateHaloPointsRect m h =
     (if num_subregions m = 1 then Inr h
      else reserving (of_bool (proc_index_y m > 0) * num_points_x m
                      + of_bool (proc_index_x m > 0) * num_points_y m) (
           reserving (of_bool (proc_index_y m < num_proc_y m - 1) * num_points_x m
                      + of_bool (proc_index_x m < num_proc_x m - 1) * num_points_y m + 1) (
           rbind (rect_slave_corner m h) (\<lambda>h.
           rbind (rect_slave_below m h) (\<lambda>h.
           rbind (rect_slave_left m h) (\<lambda>h.
           rbind (rect_master_right m h) (\<lambda>h.
           rbind (rect_master_above m h) (\<lambda>h.
           rect_master_corner m h))))))))"

text \<open>
  The pie enumerator pushes the cursor itself (pie points are stored in raster order), so
  its blocks cannot fail. \<open>pie_walk\<close> is the loop along a row, \<open>pie_column\<close> the loop along a
  column, which starts at \<open>j = 1\<close> and skips nothing.
\<close>

definition pie_walk :: "bool \<Rightarrow> int \<Rightarrow> int \<times> int list \<Rightarrow> int \<times> int list" where
  "pie_walk skip i s =
     (case s of (p, pts) \<Rightarrow> if i = 0 \<and> skip then (p + 1, pts) else (p + 1, pts @ [p]))"

definition pie_column :: "int \<Rightarrow> int \<Rightarrow> int \<times> int list \<Rightarrow> int \<times> int list" where
  "pie_column d j s = (case s of (p, pts) \<Rightarrow> (p + d, pts @ [p]))"

definition pie_slave_corner :: "mesh \<Rightarrow> halo \<Rightarrow> halo" where
  "pie_slave_corner m h =
     (if proc_index_x m \<noteq> 0 \<and> proc_index_y m \<noteq> 0 then
        h\<lparr>slaved_points := slaved_points h @ [0],
          master_colors := master_colors h @ [my_color m - num_proc_x m - 1],
          slaved_points_counts := slaved_points_counts h @ [1]\<rparr>
      else h)"

definition pie_slave_below :: "mesh \<Rightarrow> halo \<Rightarrow> halo" where
  "pie_slave_below m h =
     (if proc_index_y m \<noteq> 0 then
        (case fold (pie_walk (proc_index_x m \<noteq> 0)) [0..num_points_x m - 1] (0, slaved_points h) of
           (p, pts) \<Rightarrow>
             h\<lparr>slaved_points := pts,
               master_colors := master_colors h @ [my_color m - num_proc_x m],
               slaved_points_counts := slaved_points_counts h
                  @ [int (length pts) - int (length (slaved_points h))]\<rparr>)
      else h)"

definition pie_slave_left :: "mesh \<Rightarrow> halo \<Rightarrow> halo" where
  "pie_slave_left m h =
     (if proc_index_x m \<noteq> 0 then
        let oldsize = int (length (slaved_points h));
            h1 = (if proc_index_y m = 0 then
                    (if proc_index_x m > 1 then
                       h\<lparr>slaved_points := slaved_points h @ [0],
                         master_colors := master_colors h @ [0],
                         slaved_points_counts := slaved_points_counts h @ [1]\<rparr>
                     else h\<lparr>slaved_points := slaved_points h @ [0]\<rparr>)
                  else h);
            oldsize1 = (if proc_index_y m = 0 \<and> proc_index_x m > 1 then oldsize + 1 else oldsize)
        in (case fold (pie_column (num_points_x m)) [1..num_points_y m - 1]
                   (if proc_index_y m > 0 then num_points_x m else 1, slaved_points h1) of
              (p, pts) \<Rightarrow>
                h1\<lparr>slaved_points := pts,
                   master_colors := master_colors h1 @ [my_color m - 1],
                   slaved_points_counts := slaved_points_counts h1 @ [int (length pts) - oldsize1]\<rparr>)
      else h)"

definition pie_master_right :: "mesh \<Rightarrow> halo \<Rightarrow> halo" where
  "pie_master_right m h =
     (if proc_index_x m \<noteq> num_proc_x m - 1 then
        let oldsize = int (length (master_points h));
            mp1 = (if proc_index_x m = 0 \<and> proc_index_y m = 0
                   then master_points h @ [0] else master_points h)
        in (case fold (pie_column (num_points_x m)) [1..num_points_y m - 1]
                   (if proc_index_y m > 0 then 2 * num_points_x m - 1 else num_points_x m, mp1) of
              (p, pts) \<Rightarrow>
                let h1 = h\<lparr>master_points := pts,
                           slave_colors := slave_colors h @ [my_color m + 1],
                           master_points_counts := master_points_counts h
                              @ [int (length pts) - oldsize]\<rparr>
                in if proc_index_x m = 0 \<and> proc_index_y m = 0 then
                     fold (\<lambda>slave_proc g.
                             g\<lparr>master_points := master_points g @ [0],
                               slave_colors := slave_colors g @ [slave_proc],
                               master_points_counts := master_points_counts g @ [1]\<rparr>)
                          [2..num_proc_x m - 1] h1
                   else h1)
      else h)"

definition pie_master_above :: "mesh \<Rightarrow> halo \<Rightarrow> halo" where
  "pie_master_above m h =
     (if proc_index_y m \<noteq> num_proc_y m - 1 then
        let p0 = (num_points_y m - 1) * num_points_x m;
            p1 = (if proc_index_y m = 0 then p0 - (num_points_x m - 1) else p0)
        in (case fold (pie_walk (proc_index_x m \<noteq> 0)) [0..num_points_x m - 1] (p1, master_points h) of
              (p, pts) \<Rightarrow>
                h\<lparr>master_points := pts,
                  slave_colors := slave_colors h @ [my_color m + num_proc_x m],
                  master_points_counts := master_points_counts h
                     @ [int (length pts) - int (length (master_points h))]\<rparr>)
      else h)"

definition pie_master_corner :: "mesh \<Rightarrow> halo \<Rightarrow> halo" where
  "pie_master_corner m h =
     (if proc_index_x m \<noteq> num_proc_x m - 1 \<and> proc_index_y m \<noteq> num_proc_y m - 1 then
        let p0 = num_points_x m * num_points_y m - 1;
            p = (if proc_index_y m = 0 then p0 - (num_points_x m - 1) else p0)
        in h\<lparr>master_points := master_points h @ [p],
             slave_colors := slave_colors h @ [my_color m + num_proc_x m + 1],
             master_points_counts := master_points_counts h @ [1]\<rparr>
      else h)"

definition generateHaloPointsPie :: "mesh \<Rightarrow> halo \<Rightarrow> halo result" where
  "generateHaloPointsPie m h =
     (if num_subregions m = 1 then Inr h
      else reserving (of_bool (proc_index_y m \<noteq> 0) * num_points_x m
                      + of_bool (proc_index_x m \<noteq> 0) * num_points_y m) (
           reserving (of_bool (proc_index_y m \<noteq> num_proc_y m - 1) * num_points_x m
                      + of_bool (proc_index_x m \<noteq> num_proc_x m - 1) * num_points_y m + 1) (
           Inr (pie_master_corner m (pie_master_above m (pie_master_right m
                  (pie_slave_left m (pie_slave_below m (pie_slave_corner m h)))))))))"

text \<open>
  Hex meshes store one or two points per grid position. \<open>hex_npoints m i j\<close> is the number
  of points of position \<open>(i, j)\<close>: the case distinction that the generator and the halo
  enumerator both make.
\<close>

definition hex_npoints :: "mesh \<Rightarrow> int \<Rightarrow> int \<Rightarrow> int" where
  "hex_npoints m i j =
     (let gi = i + zone_x_offset m; gj = j + zone_y_offset m
      in if gi = 0 \<or> gi = global_nzones_x m \<or> gj = 0 \<or> gj = global_nzones_y m then 1
         else if i = nzones_x m \<and> j = 0 then 1
         else if i = 0 \<and> j = nzones_y m then 1
         else 2)"

text \<open>The first loop nest of the hex enumerator: the row bases \<^verbatim>\<open>pbase\<close> and the count \<^verbatim>\<open>np\<close>.\<close>

definition hex_count_rows :: "mesh \<Rightarrow> (int list \<times> int) result" where
  "hex_count_rows m =
     (if num_points_y m < 0 then Inl LengthError
      else Inr (fold (\<lambda>j (pbase, np).
                   (pbase[nat j := np],
                    fold (\<lambda>i np. np + hex_npoints m i j) [0..num_points_x m - 1] np))
                 [0..num_points_y m - 1] (replicate (nat (num_points_y m)) 0, 0)))"

definition hex_walk :: "mesh \<Rightarrow> int \<Rightarrow> int \<Rightarrow> int \<times> int list \<Rightarrow> int \<times> int list" where
  "hex_walk m first_skip i s =
     (case s of (p, pts) \<Rightarrow>
        if i = 0 \<and> proc_index_x m \<noteq> 0 then (p + first_skip, pts)
        else if i = 0 \<or> i = nzones_x m then (p + 1, pts @ [p])
        else (p + 2, pts @ [p, p + 1]))"

definition hex_slave_corner :: "mesh \<Rightarrow> halo \<Rightarrow> halo" where
  "hex_slave_corner m h =
     (if proc_index_x m \<noteq> 0 \<and> proc_index_y m \<noteq> 0 then
        h\<lparr>slaved_points := slaved_points h @ [0, 1],
          master_colors := master_colors h @ [my_color m - num_proc_x m - 1],
          slaved_points_counts := slaved_points_counts h @ [2]\<rparr>
      else h)"

definition hex_slave_below :: "mesh \<Rightarrow> halo \<Rightarrow> halo" where
  "hex_slave_below m h =
     (if proc_index_y m \<noteq> 0 then
        (case fold (hex_walk m 2) [0..num_points_x m - 1] (0, slaved_points h) of
           (p, pts) \<Rightarrow>
             h\<lparr>slaved_points := pts,
               master_colors := master_colors h @ [my_color m - num_proc_x m],
               slaved_points_counts := slaved_points_counts h
                  @ [int (length pts) - int (length (slaved_points h))]\<rparr>)
      else h)"

definition hex_slave_left :: "mesh \<Rightarrow> int list \<Rightarrow> halo \<Rightarrow> halo result" where
  "hex_slave_left m pbase h =
     (if proc_index_x m \<noteq> 0 then
        rbind (forM [0..num_points_y m - 1]
                 (\<lambda>j pts. if j = 0 \<and> proc_index_y m \<noteq> 0 then Inr pts
                           else rbind (vget pbase j) (\<lambda>p.
                                  Inr (if j = 0 \<or> j = nzones_y m then pts @ [p]
                                       else pts @ [p, p + 1])))
                 (slaved_points h)) (\<lambda>pts.
          Inr (h\<lparr>slaved_points := pts,
                master_colors := master_colors h @ [my_color m - 1],
                slaved_points_counts := slaved_points_counts h
                   @ [int (length pts) - int (length (slaved_points h))]\<rparr>))
      else Inr h)"

definition hex_master_right :: "mesh \<Rightarrow> int list \<Rightarrow> int \<Rightarrow> halo \<Rightarrow> halo result" where
  "hex_master_right m pbase np h =
     (if proc_index_x m \<noteq> num_proc_x m - 1 then
        rbind (forM [0..num_points_y m - 1]
                 (\<lambda>j pts. if j = 0 \<and> proc_index_y m \<noteq> 0 then Inr pts
                           else rbind (if j = nzones_y m then Inr np else vget pbase (j + 1)) (\<lambda>p.
                                  Inr (if j = 0 \<or> j = nzones_y m then pts @ [p - 1]
                                       else pts @ [p - 2, p - 1])))
                 (master_points h)) (\<lambda>pts.
          Inr (h\<lparr>master_points := pts,
                slave_colors := slave_colors h @ [my_color m + 1],
                master_points_counts := master_points_counts h
                   @ [int (length pts) - int (length (master_points h))]\<rparr>))
      else Inr h)"

definition hex_master_above :: "mesh \<Rightarrow> int list \<Rightarrow> halo \<Rightarrow> halo result" where
  "hex_master_above m pbase h =
     (if proc_index_y m \<noteq> num_proc_y m - 1 then
        rbind (vget pbase (nzones_y m)) (\<lambda>p0.
          (case fold (hex_walk m 1) [0..num_points_x m - 1] (p0, master_points h) of
             (p, pts) \<Rightarrow>
               Inr (h\<lparr>master_points := pts,
                     slave_colors := slave_colors h @ [my_color m + num_proc_x m],
                     master_points_counts := master_points_counts h
                        @ [int (length pts) - int (length (master_points h))]\<rparr>)))
      else Inr h)"

definition hex_master_corner :: "mesh \<Rightarrow> int \<Rightarrow> halo \<Rightarrow> halo" where
  "hex_master_corner m np h =
     (if proc_index_x m \<noteq> num_proc_x m - 1 \<and> proc_index_y m \<noteq> num_proc_y m - 1 then
        h\<lparr>master_points := master_points h @ [np - 2, np - 1],
          slave_colors := slave_colors h @ [my_color m + num_proc_x m + 1],
          master_points_counts := master_points_counts h @ [2]\<rparr>
      else h)"

definition generateHaloPointsHex :: "mesh \<Rightarrow> halo \<Rightarrow> halo result" where
  "generateHaloPointsHex m h =
     (if num_subregions m = 1 then Inr h
      else rbind (hex_count_rows m) (\<lambda>(pbase, np).
           reserving (of_bool (proc_index_y m \<noteq> 0) * 2 * num_points_x m
                      + of_bool (proc_index_x m \<noteq> 0) * 2 * num_points_y m) (
           reserving (of_bool (proc_index_y m \<noteq> num_proc_y m - 1) * 2 * num_points_x m
                      + of_bool (proc_index_x m \<noteq> num_proc_x m - 1) * 2 * num_points_y m + 2) (
           rbind (hex_slave_left m pbase (hex_slave_below m (hex_slave_corner m h))) (\<lambda>h.
           rbind (hex_master_right m pbase np h) (\<lambda>h.
           rbind (hex_master_above m pbase h) (\<lambda>h.
           Inr (hex_master_corner m np h))))))))"

text \<open>
  The dispatch on the family tag, with the same last branch as in \<^verbatim>\<open>generate\<close>.
\<close>

definition generateHaloPoints :: "mesh \<Rightarrow> halo \<Rightarrow> halo result" where
  "generateHaloPoints m h =
     (if meshtype m = ''pie'' then generateHaloPointsPie m h
      else if meshtype m = ''rect'' then generateHaloPointsRect m h
      else if meshtype m = ''hex'' then generateHaloPointsHex m h
      else if meshtype m \<noteq> allowable_mesh_type then Inr h
      else Inl AssertionFailure)"

subsection \<open>Notions used to state and prove the properties\<close>

text \<open>
  The state of a rank. \<open>rank_state m color\<close> runs the statements of \<^verbatim>\<open>calcLocalConstants\<close>
  other than the two loops that write the inverse vectors: the extents and the two
  permutations. The inverse vectors keep the value they have in \<open>m\<close>. The generators and the
  halo enumerators read neither of them.
\<close>

definition rank_state :: "mesh \<Rightarrow> int \<Rightarrow> mesh result" where
  "rank_state m color =
     rbind (local_extents m color) (\<lambda>m.
     rbind (int32 (global_nzones_x m + 1)) (\<lambda>gx.
     rbind (int32 (global_nzones_y m + 1)) (\<lambda>gy.
     rbind (muPermutation gx gy (num_proc_x m) (num_proc_y m)) (\<lambda>gperm.
     rbind (muPermutation (num_points_x m) (num_points_y m) 1 1) (\<lambda>lperm.
       Inr (m\<lparr>global_perm := gperm, perm := lperm\<rparr>))))))"

text \<open>
  The state of rank \<open>color\<close> of a mesh of \<open>nzx\<close> by \<open>nzy\<close> zones on a processor grid of \<open>npx\<close> by
  \<open>npy\<close>: the member initialisers of the constructor, the grid in place of the planner's
  result, and \<open>rank_state\<close>. The extents are 1 by 1 and the inverse vectors are empty.
\<close>

definition rank_mesh :: "string \<Rightarrow> int \<Rightarrow> int \<Rightarrow> int \<Rightarrow> int \<Rightarrow> int \<Rightarrow> mesh result" where
  "rank_mesh mtype nzx nzy npx npy color =
     rank_state
       ((members mtype nzx nzy 1 1 (npx * npy) color)\<lparr>num_proc_x := npx, num_proc_y := npy\<rparr>) color"

definition no_halo :: halo where
  "no_halo = \<lparr>master_colors = [], slaved_points_counts = [], slaved_points = [],
              slave_colors = [], master_points_counts = [], master_points = []\<rparr>"

text \<open>
  The invariant of the zone loops: every start offset is the sum of the sizes before it, the
  sizes are not negative and they add up to the length of \<^verbatim>\<open>zonepoints\<close>.
\<close>

definition crs :: "zones \<Rightarrow> bool" where
  "crs z =
     (case z of (zonestart, zonesize, zonepoints) \<Rightarrow>
        length zonestart = length zonesize
        \<and> (\<forall>k < length zonesize. zonestart ! k = sum_list (take k zonesize))
        \<and> int (length zonepoints) = sum_list zonesize
        \<and> (\<forall>n \<in> set zonesize. 0 \<le> n))"

text \<open>
  The coordinates that the pie generator computes for the grid position \<open>(i, j)\<close> of a row
  other than the pole: radius \<open>dr * (j + zone_y_offset)\<close>, angle
  \<open>dth * (global_nzones_x - (i + zone_x_offset))\<close>.
\<close>

definition pie_coordinate :: "mesh \<Rightarrow> int \<Rightarrow> int \<Rightarrow> double2" where
  "pie_coordinate m j i =
     (let r = len_y m / real_of_int (global_nzones_y m) * real_of_int (j + zone_y_offset m);
          th = len_x m / real_of_int (global_nzones_x m)
               * real_of_int (global_nzones_x m - (i + zone_x_offset m))
      in (r * cos th, r * sin th))"

text \<open>
  The grid cells in the order in which \<^verbatim>\<open>muPermutation\<close> numbers them: the cells of one
  block, and cell 0 followed by the cells of all blocks in row-major block order.
\<close>

definition block_cells :: "int \<Rightarrow> int \<Rightarrow> int \<Rightarrow> int \<Rightarrow> int \<Rightarrow> int list" where
  "block_cells num_pts_x width_x width_y block_y block_x =
     (if block_x = 0
      then map (\<lambda>dy. linearize num_pts_x 0 (width_y * block_y + dy)) [1..width_y] else [])
     @ (if block_y = 0
        then map (\<lambda>dx. linearize num_pts_x (block_x * width_x + 1 + dx) (width_y * block_y))
               [0..width_x - 1]
        else [])
     @ map (\<lambda>dy. linearize num_pts_x (width_x * (block_x + 1)) (width_y * block_y + 1 + dy))
         [0..width_y - 1]
     @ map (\<lambda>dx. linearize num_pts_x (width_x * block_x + 1 + dx) (width_y * (block_y + 1)))
         [0..width_x - 2]
     @ concat (map (\<lambda>dy. map (\<lambda>dx. linearize num_pts_x (width_x * block_x + dx)
                                    (width_y * block_y + dy)) [1..width_x - 1])
                 [1..width_y - 1])"

definition mu_cells :: "int \<Rightarrow> int \<Rightarrow> int \<Rightarrow> int \<Rightarrow> int \<Rightarrow> int list" where
  "mu_cells num_pts_x width_x width_y num_blocks_x num_blocks_y =
     0 # concat (map (\<lambda>block_y. concat (map (block_cells num_pts_x width_x width_y block_y)
                                            [0..num_blocks_x - 1]))
                  [0..num_blocks_y - 1])"

text \<open>
  The raster indices that an edge loop of a halo enumerator visits: start \<open>p0\<close>, stride \<open>d\<close>,
  \<open>n\<close> iterations, the first one left out when \<open>skip\<close> holds.
\<close>

definition walk_indices :: "bool \<Rightarrow> int \<Rightarrow> int \<Rightarrow> int \<Rightarrow> int list" where
  "walk_indices skip p0 d n = map (\<lambda>k. p0 + k * d) [(if skip then 1 else 0)..n - 1]"

text \<open>
  Group \<open>k\<close> of a list of points that is grouped by a list of counts, as the halo vectors
  are: the points of the first relation come first, then those of the second, and so on.
\<close>

definition segment :: "int list \<Rightarrow> int list \<Rightarrow> nat \<Rightarrow> int list" where
  "segment counts pts k = take (nat (counts ! k)) (drop (nat (sum_list (take k counts))) pts)"

text \<open>
  The number of points of row \<open>j\<close> of a hex mesh, and the number of points of the rows before
  row \<open>j\<close>: the value that the hex loops store in \<^verbatim>\<open>pbase[j]\<close>.
\<close>

definition hex_row_npoints :: "mesh \<Rightarrow> int \<Rightarrow> int" where
  "hex_row_npoints m j = sum_list (map (\<lambda>i. hex_npoints m i j) [0..num_points_x m - 1])"

definition hex_base :: "mesh \<Rightarrow> int \<Rightarrow> int" where
  "hex_base m j = sum_list (map (hex_row_npoints m) [0..j - 1])"

definition nzones :: "zones \<Rightarrow> nat" where
  "nzones z = length (fst (snd z))"

text \<open>The number of vertices that the hex generator leaves to the zone at \<open>(i, j)\<close>.\<close>

definition hex_nverts :: "mesh \<Rightarrow> int \<Rightarrow> int \<Rightarrow> int" where
  "hex_nverts m j i =
     (let gj = j + zone_y_offset m; gi = i + zone_x_offset m
      in if gj = 0 then (if gi = global_nzones_x m - 1 then 4 else 5)
         else if gj = global_nzones_y m - 1 then (if gi = 0 then 4 else 5)
         else if gi = 0 \<or> gi = global_nzones_x m - 1 then 5
         else 6)"

section \<open>Verification\<close>

subsection \<open>Dispatch on the family tag\<close>

text \<open>
  Claim C10. For a family tag other than "pie", "rect" and "hex", and for every local point
  index \<open>p\<close>, \<^verbatim>\<open>pointLocalToGlobalID(p)\<close> returns normally with the value \<open>-1\<close>: no assertion
  is checked and nothing fails.
\<close>

theorem pointLocalToGlobalID_unknown_tag:
  "meshtype m \<notin> {''pie'', ''rect'', ''hex''} \<Longrightarrow> pointLocalToGlobalID decls m p = Inr (- 1)"
  by (simp add: pointLocalToGlobalID_def)

theorem pointLocalToGlobalID_unknown_tag_witness:
  "meshtype (members ''tri'' 2 2 1 1 1 0) \<notin> {''pie'', ''rect'', ''hex''}
   \<and> pointLocalToGlobalID
        \<lparr>yStart = (\<lambda>m k. k), xStart = (\<lambda>m k. k), numPointsPreviousRowsNonZeroJHex = (\<lambda>m k. k)\<rparr>
        (members ''tri'' 2 2 1 1 1 0) 7 = Inr (- 1)"
proof -
  have tag: "meshtype (members ''tri'' 2 2 1 1 1 0) \<notin> {''pie'', ''rect'', ''hex''}"
    by (simp add: members_def)
  from pointLocalToGlobalID_unknown_tag [OF tag] tag show ?thesis
    by blast
qed

text \<open>
  Claim C9. With a single partition (\<^verbatim>\<open>num_subregions == 1\<close>) the halo enumerator of each of
  the three families returns at once: \<^verbatim>\<open>generateHaloPoints\<close> returns normally and the six
  vectors it received are what it hands back.
\<close>

theorem generateHaloPoints_single_rank:
  "meshtype m \<in> {''pie'', ''rect'', ''hex''} \<Longrightarrow> num_subregions m = 1
   \<Longrightarrow> generateHaloPoints m h = Inr h"
  by (auto simp add: generateHaloPoints_def generateHaloPointsPie_def generateHaloPointsRect_def
      generateHaloPointsHex_def)

theorem generateHaloPoints_single_rank_witness:
  "meshtype (members ''hex'' 3 3 1 1 1 0) \<in> {''pie'', ''rect'', ''hex''}
   \<and> num_subregions (members ''hex'' 3 3 1 1 1 0) = 1
   \<and> generateHaloPoints (members ''hex'' 3 3 1 1 1 0)
        \<lparr>master_colors = [4], slaved_points_counts = [1], slaved_points = [9],
         slave_colors = [], master_points_counts = [], master_points = []\<rparr>
      = Inr \<lparr>master_colors = [4], slaved_points_counts = [1], slaved_points = [9],
             slave_colors = [], master_points_counts = [], master_points = []\<rparr>"
proof -
  have tag: "meshtype (members ''hex'' 3 3 1 1 1 0) \<in> {''pie'', ''rect'', ''hex''}"
    by (simp add: members_def)
  have one: "num_subregions (members ''hex'' 3 3 1 1 1 0) = 1"
    by (simp add: members_def)
  from generateHaloPoints_single_rank [OF tag one] tag one show ?thesis
    by blast
qed

text \<open>
  Claim C4 says that a family tag outside "rect", "pie" and "hex" is caught by an assertion
  that ends the run, in \<^verbatim>\<open>generate\<close> and in \<^verbatim>\<open>generateHaloPoints\<close>. The assertion of the
  source compares the tag with the placeholder string \<^verbatim>\<open>"!@#$&!*()@#$"\<close>, so it holds for
  every other tag. For the tag "foo", \<^verbatim>\<open>generateHaloPoints\<close> returns normally with its six
  vectors unchanged, and \<^verbatim>\<open>generate\<close> passes the assertion and goes on to read
  \<^verbatim>\<open>zonesize.back()\<close> of a vector that is still empty. Only the placeholder string itself
  fails the assertion.
\<close>

theorem unknown_tag_passes_assertion:
  "generateHaloPoints (m\<lparr>meshtype := ''foo''\<rparr>) h = Inr h
   \<and> generate (m\<lparr>meshtype := ''foo''\<rparr>) [] [] [] = Inl UndefinedBehaviour
   \<and> generateHaloPoints (m\<lparr>meshtype := allowable_mesh_type\<rparr>) h = Inl AssertionFailure
   \<and> generate (m\<lparr>meshtype := allowable_mesh_type\<rparr>) pp zs zp = Inl AssertionFailure"
  by (simp add: generateHaloPoints_def generate_def mesh_type_specific_def allowable_mesh_type_def
      rbind_def vback_def)

subsection \<open>The partition planner\<close>

text \<open>A remainder of zero makes the truncating division exact.\<close>

lemma smod_zero_mult:
  fixes P r :: int
  assumes "P smod r = 0"
  shows "P sdiv r * r = P"
  using sdiv_mult_smod_eq [of P r] assms by simp

text \<open>
  The downward search started at a value of at least 1 ends, at the latest at 1; the upward
  search started between 1 and \<open>P\<close> ends, at the latest at \<open>P\<close>.
\<close>

lemma search_down_total:
  assumes "1 \<le> n"
  shows "\<exists>r. search_down P n = Some (Inr r) \<and> 1 \<le> r \<and> r \<le> n \<and> P smod r = 0"
  using assms
proof (induction n rule: int_ge_induct)
  case base
  show ?case by (subst search_down.simps) (simp add: signed_modulo_int_def)
next
  case (step i)
  show ?case
  proof (cases "P smod (i + 1) = 0")
    case True
    with step.hyps show ?thesis by (subst search_down.simps) simp
  next
    case False
    from step.IH obtain r where "search_down P i = Some (Inr r)" "1 \<le> r" "r \<le> i" "P smod r = 0"
      by blast
    with False step.hyps show ?thesis by (subst search_down.simps) simp
  qed
qed

lemma smod_self: "(P::int) smod P = 0"
  by (simp add: signed_modulo_int_def)

lemma search_up_total:
  assumes "1 \<le> n" "n \<le> P"
  shows "\<exists>r. search_up P n = Some (Inr r) \<and> n \<le> r \<and> r \<le> P \<and> P smod r = 0"
  using assms
proof (induction "nat (P - n)" arbitrary: n)
  case 0
  then have "n = P" by simp
  then show ?case using 0 by (subst search_up.simps) (simp add: smod_self)
next
  case (Suc k)
  show ?case
  proof (cases "P smod n = 0")
    case True
    with Suc.prems show ?thesis by (subst search_up.simps) simp
  next
    case False
    from Suc.hyps(2) have k: "k = nat (P - (n + 1))" and lt: "n + 1 \<le> P" by linarith+
    from Suc.hyps(1) [OF k _ lt] Suc.prems obtain r where
      "search_up P (n + 1) = Some (Inr r)" "n + 1 \<le> r" "r \<le> P" "P smod r = 0"
      by auto
    with False Suc.prems show ?thesis by (subst search_up.simps) simp
  qed
qed


text \<open>
  The starting value of the upward search, \<^verbatim>\<open>ceil(n - 1.e-12)\<close>, lies between 1 and \<open>P\<close>:
  with \<open>a \<le> b\<close> the estimate \<open>n\<close> is at most \<open>sqrt P\<close>, and with \<open>b\<close> in the range of
  \<^verbatim>\<open>int\<close> it is above \<open>1.e-12\<close>.
\<close>

lemma estimate_upper:
  fixes P a b :: int
  assumes P: "1 \<le> P" and a: "1 \<le> a" and ab: "a \<le> b"
  shows "\<lceil>sqrt (real_of_int P * real_of_int a / real_of_int b) - 1 / 10 ^ 12\<rceil> \<le> P"
proof -
  have bpos: "0 < real_of_int b" using a ab by simp
  have "real_of_int P * real_of_int a \<le> real_of_int P * real_of_int b"
    using P ab by (simp add: mult_left_mono)
  then have q1: "real_of_int P * real_of_int a / real_of_int b \<le> real_of_int P"
    using bpos by (simp add: divide_le_eq)
  have "sqrt (real_of_int P * real_of_int a / real_of_int b) \<le> sqrt (real_of_int P)"
    using q1 by simp
  also have "\<dots> \<le> real_of_int P"
  proof (rule real_le_lsqrt)
    have "1 \<le> real_of_int P" using P by simp
    then have "real_of_int P * 1 \<le> real_of_int P * real_of_int P"
      by (intro mult_left_mono) simp_all
    then show "real_of_int P \<le> (real_of_int P)\<^sup>2" by (simp add: power2_eq_square)
  qed (use P in simp)
  finally have "sqrt (real_of_int P * real_of_int a / real_of_int b) - 1 / 10 ^ 12 \<le> real_of_int P"
    by simp
  then show ?thesis by (simp only: ceiling_le_iff)
qed

lemma estimate_lower:
  fixes P a b :: int
  assumes P: "1 \<le> P" and a: "1 \<le> a" and ab: "a \<le> b" and b: "b \<le> 2147483647"
  shows "1 \<le> \<lceil>sqrt (real_of_int P * real_of_int a / real_of_int b) - 1 / 10 ^ 12\<rceil>"
proof -
  have bpos: "0 < real_of_int b" using a ab by simp
  have "1 * 1 \<le> P * a" using P a by (intro mult_mono) simp_all
  then have "1 \<le> P * a" by simp
  then have "real_of_int 1 \<le> real_of_int (P * a)" by (simp only: of_int_le_iff)
  then have pa: "1 \<le> real_of_int P * real_of_int a" by simp
  have "real_of_int b \<le> 2147483647" using b by simp
  also have "\<dots> \<le> 2147483647 * (real_of_int P * real_of_int a)" using pa by simp
  finally have "real_of_int b / 2147483647 \<le> real_of_int P * real_of_int a" by simp
  then have "1 / 2147483647 \<le> real_of_int P * real_of_int a / real_of_int b"
    using bpos by (simp add: le_divide_eq mult.commute)
  moreover have "((1::real) / 10 ^ 12)\<^sup>2 < 1 / 2147483647" by (simp add: power2_eq_square)
  ultimately have "((1::real) / 10 ^ 12)\<^sup>2 < real_of_int P * real_of_int a / real_of_int b"
    by (rule less_le_trans [rotated])
  then have "1 / 10 ^ 12 < sqrt (real_of_int P * real_of_int a / real_of_int b)"
    by (rule real_less_rsqrt)
  then have "real_of_int 0 < sqrt (real_of_int P * real_of_int a / real_of_int b) - 1 / 10 ^ 12" by simp
  then have "0 < \<lceil>sqrt (real_of_int P * real_of_int a / real_of_int b) - 1 / 10 ^ 12\<rceil>"
    by (simp only: less_ceiling_iff)
  then show ?thesis by linarith
qed

text \<open>
  Claim C3. For a partition count \<open>P \<ge> 1\<close> and global zone counts \<open>nx \<ge> 1\<close>, \<open>ny \<ge> 1\<close> (values
  of the type \<^verbatim>\<open>int\<close>, so at most \<open>2147483647\<close>), \<^verbatim>\<open>calcPartitions\<close> returns: both divisor
  searches end, no operation is undefined, and the processor grid it stores satisfies
  \<open>num_proc_x * num_proc_y = P\<close>, \<open>num_proc_x \<ge> 1\<close> and \<open>num_proc_y \<ge> 1\<close>.
\<close>

theorem calcPartitions_total:
  assumes P: "1 \<le> num_subregions m"
    and x: "1 \<le> global_nzones_x m" "global_nzones_x m \<le> 2147483647"
    and y: "1 \<le> global_nzones_y m" "global_nzones_y m \<le> 2147483647"
  shows "\<exists>m'. calcPartitions m = Some (Inr m')
           \<and> num_proc_x m' * num_proc_y m' = num_subregions m
           \<and> 1 \<le> num_proc_x m' \<and> 1 \<le> num_proc_y m'"
proof -
  let ?P = "num_subregions m"
  let ?sw = "global_nzones_y m < global_nzones_x m"
  define a where "a = (if ?sw then global_nzones_y m else global_nzones_x m)"
  define b where "b = (if ?sw then global_nzones_x m else global_nzones_y m)"
  have ab: "1 \<le> a" "a \<le> b" "b \<le> 2147483647"
    using x y by (auto simp add: a_def b_def)
  define n where "n = sqrt (real_of_int ?P * real_of_int a / real_of_int b)"
  have "1 \<le> max \<lfloor>n + 1 / 10 ^ 12\<rfloor> 1" by simp
  from search_down_total [OF this, of ?P] obtain n1 where
    n1: "search_down ?P (max \<lfloor>n + 1 / 10 ^ 12\<rfloor> 1) = Some (Inr n1)" "1 \<le> n1" "?P smod n1 = 0"
    by blast
  have est: "1 \<le> \<lceil>n - 1 / 10 ^ 12\<rceil>" "\<lceil>n - 1 / 10 ^ 12\<rceil> \<le> ?P"
    unfolding n_def using estimate_lower [OF P ab] estimate_upper [OF P ab(1,2)] by blast+
  from search_up_total [OF est] obtain n2 where
    n2': "search_up ?P \<lceil>n - 1 / 10 ^ 12\<rceil> = Some (Inr n2)" "\<lceil>n - 1 / 10 ^ 12\<rceil> \<le> n2"
      "?P smod n2 = 0"
    by blast
  from n2' est(1) have n2: "search_up ?P \<lceil>n - 1 / 10 ^ 12\<rceil> = Some (Inr n2)" "1 \<le> n2"
      "?P smod n2 = 0"
    by linarith+
  define npx where "npx = NPX (max (real_of_int a / real_of_int n1) (real_of_int b / real_of_int (?P sdiv n1)))
     (max (real_of_int a / real_of_int n2) (real_of_int b / real_of_int (?P sdiv n2))) n1 n2"
  have npx: "1 \<le> npx" "?P smod npx = 0"
    using n1 n2 by (auto simp add: npx_def NPX_def)
  have prod: "?P sdiv npx * npx = ?P"
    using npx(2) by (rule smod_zero_mult)
  have npy: "1 \<le> ?P sdiv npx"
  proof (rule ccontr)
    assume "\<not> 1 \<le> ?P sdiv npx"
    then have "?P sdiv npx \<le> 0" by simp
    then have "?P sdiv npx * npx \<le> 0" using npx(1) by (simp add: mult_le_0_iff)
    with prod P show False by simp
  qed
  have run: "calcPartitions m = Some (Inr (if ?sw then m\<lparr>num_proc_x := ?P sdiv npx, num_proc_y := npx\<rparr>
                                     else m\<lparr>num_proc_x := npx, num_proc_y := ?P sdiv npx\<rparr>))"
  proof (cases ?sw)
    case True
    with n1(1) n2(1) npx(1) show ?thesis
      unfolding calcPartitions_def Let_def n_def a_def b_def npx_def
      by (simp add: idiv_def rbind_def)
  next
    case False
    with n1(1) n2(1) npx(1) show ?thesis
      unfolding calcPartitions_def Let_def n_def a_def b_def npx_def
      by (simp add: idiv_def rbind_def)
  qed
  show ?thesis
    unfolding run using prod npx(1) npy by (simp add: mult.commute)
qed

theorem calcPartitions_total_witness:
  "1 \<le> num_subregions (members ''rect'' 6 4 1 1 4 0)
   \<and> 1 \<le> global_nzones_x (members ''rect'' 6 4 1 1 4 0)
   \<and> global_nzones_x (members ''rect'' 6 4 1 1 4 0) \<le> 2147483647
   \<and> 1 \<le> global_nzones_y (members ''rect'' 6 4 1 1 4 0)
   \<and> global_nzones_y (members ''rect'' 6 4 1 1 4 0) \<le> 2147483647
   \<and> (\<exists>m'. calcPartitions (members ''rect'' 6 4 1 1 4 0) = Some (Inr m')
           \<and> num_proc_x m' * num_proc_y m' = num_subregions (members ''rect'' 6 4 1 1 4 0)
           \<and> 1 \<le> num_proc_x m' \<and> 1 \<le> num_proc_y m')"
proof -
  have h: "1 \<le> num_subregions (members ''rect'' 6 4 1 1 4 0)"
    "1 \<le> global_nzones_x (members ''rect'' 6 4 1 1 4 0)"
    "global_nzones_x (members ''rect'' 6 4 1 1 4 0) \<le> 2147483647"
    "1 \<le> global_nzones_y (members ''rect'' 6 4 1 1 4 0)"
    "global_nzones_y (members ''rect'' 6 4 1 1 4 0) \<le> 2147483647"
    by (simp_all add: members_def)
  from calcPartitions_total [OF h] h show ?thesis
    by blast
qed

subsection \<open>Results and loops\<close>

lemma rbind_Inr [simp]: "rbind (Inr x) f = f x"
  by (simp add: rbind_def)

lemma rbind_Inl [simp]: "rbind (Inl e) f = Inl e"
  by (simp add: rbind_def)

lemma rbind_eq_Inr: "rbind r f = Inr y \<longleftrightarrow> (\<exists>x. r = Inr x \<and> f x = Inr y)"
  by (cases r) simp_all

lemma reserving_eq_Inr: "reserving n r = Inr y \<longleftrightarrow> 0 \<le> n \<and> r = Inr y"
  by (auto simp add: reserving_def)

lemma forM_append: "forM (xs @ ys) f s = rbind (forM xs f s) (forM ys f)"
  by (induction xs arbitrary: s) (simp_all split: sum.splits)

text \<open>A property that every successful step preserves holds after a successful loop.\<close>

lemma forM_preserves:
  assumes "forM xs f s = Inr s'" and "I s"
    and "\<And>x s s'. x \<in> set xs \<Longrightarrow> I s \<Longrightarrow> f x s = Inr s' \<Longrightarrow> I s'"
  shows "I s'"
  using assms
proof (induction xs arbitrary: s)
  case Nil
  then show ?case by simp
next
  case (Cons x xs)
  from Cons.prems(1) obtain t where t: "f x s = Inr t" "forM xs f t = Inr s'"
    by (auto split: sum.splits)
  have "I t" using Cons.prems(3) [of x s t] Cons.prems(2) t(1) by simp
  show ?case
  proof (rule Cons.IH [OF t(2) \<open>I t\<close>])
    fix y u u'
    assume "y \<in> set xs" "I u" "f y u = Inr u'"
    then show "I u'" using Cons.prems(3) [of y u u'] by simp
  qed
qed

lemma fold_preserves:
  assumes "I s" and "\<And>x s. x \<in> set xs \<Longrightarrow> I s \<Longrightarrow> I (f x s)"
  shows "I (fold f xs s)"
  using assms by (induction xs arbitrary: s) simp_all

text \<open>A measure that every successful step raises by \<open>c\<close> is raised by \<open>c\<close> per iteration.\<close>

lemma forM_counts:
  fixes \<mu> :: "'s \<Rightarrow> nat"
  assumes "forM xs f s = Inr s'"
    and "\<And>x s s'. x \<in> set xs \<Longrightarrow> f x s = Inr s' \<Longrightarrow> \<mu> s' = \<mu> s + c"
  shows "\<mu> s' = \<mu> s + c * length xs"
  using assms
proof (induction xs arbitrary: s)
  case Nil
  then show ?case by simp
next
  case (Cons x xs)
  from Cons.prems(1) obtain t where t: "f x s = Inr t" "forM xs f t = Inr s'"
    by (auto split: sum.splits)
  have "\<mu> t = \<mu> s + c" using Cons.prems(2) [of x s t] t(1) by simp
  moreover have "\<mu> s' = \<mu> t + c * length xs"
  proof (rule Cons.IH [OF t(2)])
    fix y u u'
    assume "y \<in> set xs" "f y u = Inr u'"
    then show "\<mu> u' = \<mu> u + c" using Cons.prems(2) [of y u u'] by simp
  qed
  ultimately show ?case by simp
qed

lemma fold_counts:
  fixes \<mu> :: "'s \<Rightarrow> nat"
  assumes "\<And>x s. x \<in> set xs \<Longrightarrow> \<mu> (f x s) = \<mu> s + c"
  shows "\<mu> (fold f xs s) = \<mu> s + c * length xs"
  using assms by (induction xs arbitrary: s) simp_all

subsection \<open>The CRS form of the zone lists\<close>

lemma crs_empty: "crs ([], [], [])"
  by (simp add: crs_def)

lemma crs_push_zone: "crs z \<Longrightarrow> crs (push_zone v z)"
  by (auto simp add: crs_def push_zone_def nth_append split: prod.splits)

lemma nzones_push_zone: "nzones (push_zone v z) = nzones z + 1"
  by (simp add: nzones_def push_zone_def split: prod.splits)

lemma crs_terminal:
  assumes "crs (zs, zsz, zp)" and ne: "zsz \<noteq> []"
  defines "zst \<equiv> zs @ [last zs + last zsz]"
  shows "\<forall>k \<le> length zsz. zst ! k = sum_list (take k zsz)"
proof (intro allI impI)
  fix k
  assume k: "k \<le> length zsz"
  from assms(1) have len: "length zs = length zsz"
    and st: "\<And>k. k < length zsz \<Longrightarrow> zs ! k = sum_list (take k zsz)"
    by (simp_all add: crs_def)
  show "zst ! k = sum_list (take k zsz)"
  proof (cases "k < length zsz")
    case True
    then show ?thesis using st len by (simp add: zst_def nth_append)
  next
    case False
    with k have keq: "k = length zsz" by simp
    from ne len have zne: "zs \<noteq> []" by auto
    have "last zs = zs ! (length zsz - 1)" using zne len by (simp add: last_conv_nth)
    also have "\<dots> = sum_list (take (length zsz - 1) zsz)" using ne st by simp
    finally have "last zs + last zsz = sum_list (take (length zsz - 1) zsz @ [last zsz])" by simp
    also have "take (length zsz - 1) zsz @ [last zsz] = zsz"
      using ne by (metis append_butlast_last_id butlast_conv_take)
    finally show ?thesis using keq len by (simp add: zst_def nth_append)
  qed
qed

lemma crs_properties:
  assumes c: "crs (zs, zsz, zp)" and ne: "zsz \<noteq> []"
  defines "zst \<equiv> zs @ [last zs + last zsz]"
  shows "length zst = length zsz + 1"
    and "sorted zst"
    and "\<forall>z < length zsz. zst ! Suc z - zst ! z = zsz ! z"
    and "int (length zp) = zst ! length zsz"
    and "zst ! length zsz = zst ! (length zsz - 1) + zsz ! (length zsz - 1)"
proof -
  from c have len: "length zs = length zsz" and tot: "int (length zp) = sum_list zsz"
    and pos: "\<And>n. n \<in> set zsz \<Longrightarrow> 0 \<le> n"
    by (simp_all add: crs_def)
  have sums: "\<And>k. k \<le> length zsz \<Longrightarrow> zst ! k = sum_list (take k zsz)"
    using crs_terminal [OF c ne] by (simp add: zst_def)
  show l: "length zst = length zsz + 1" by (simp add: zst_def len)
  have step: "zst ! Suc z = zst ! z + zsz ! z" if "z < length zsz" for z
    using that sums [of z] sums [of "Suc z"] by (simp add: take_Suc_conv_app_nth)
  then show "\<forall>z < length zsz. zst ! Suc z - zst ! z = zsz ! z" by simp
  show "sorted zst"
  proof (subst sorted_iff_nth_Suc, intro allI impI)
    fix i
    assume "Suc i < length zst"
    then have i: "i < length zsz" using l by simp
    then have "0 \<le> zsz ! i" using pos by simp
    with step [OF i] show "zst ! i \<le> zst ! Suc i" by simp
  qed
  show "int (length zp) = zst ! length zsz" using sums [of "length zsz"] tot by simp
  from ne have "length zsz - 1 < length zsz" by simp
  from step [OF this] ne show "zst ! length zsz = zst ! (length zsz - 1) + zsz ! (length zsz - 1)"
    by simp
qed

lemma rect_zone_push: "rect_zone m j i z = Inr z' \<Longrightarrow> \<exists>a b c d. z' = push_zone [a, b, c, d] z"
  by (auto simp add: rect_zone_def Let_def rbind_eq_Inr)

lemma pie_zone_push: "\<exists>v. pie_zone m j i z = push_zone v z"
  by (auto simp add: pie_zone_def)

lemma generateRect_crs:
  assumes "generateRect m pp z = Inr (pp', z')" and "crs z"
  shows "crs z'" and "nzones z' = nzones z + nat (nzones_x m) * nat (nzones_y m)"
proof -
  from assms(1) have run: "forM [0..nzones_y m - 1] (\<lambda>j. forM [0..nzones_x m - 1] (rect_zone m j)) z = Inr z'"
    by (auto simp add: generateRect_def rbind_eq_Inr reserving_eq_Inr)
  show "crs z'"
  proof (rule forM_preserves [where I = crs, OF run \<open>crs z\<close>])
    fix j s s'
    assume "crs s" and "forM [0..nzones_x m - 1] (rect_zone m j) s = Inr s'"
    from this(2,1) show "crs s'"
    proof (rule forM_preserves [where I = crs])
      fix i t t'
      assume "crs t" "rect_zone m j i t = Inr t'"
      then show "crs t'" using rect_zone_push [of m j i t t'] by (auto simp add: crs_push_zone)
    qed
  qed
  have "nzones z' = nzones z + nat (nzones_x m) * length [0..nzones_y m - 1]"
  proof (rule forM_counts [where \<mu> = nzones, OF run])
    fix j s s'
    assume "forM [0..nzones_x m - 1] (rect_zone m j) s = Inr s'"
    then have "nzones s' = nzones s + 1 * length [0..nzones_x m - 1]"
    proof (rule forM_counts [where \<mu> = nzones])
      fix i t t'
      assume "rect_zone m j i t = Inr t'"
      then show "nzones t' = nzones t + 1"
        using rect_zone_push [of m j i t t'] by (auto simp add: nzones_push_zone)
    qed
    then show "nzones s' = nzones s + nat (nzones_x m)" by simp
  qed
  then show "nzones z' = nzones z + nat (nzones_x m) * nat (nzones_y m)" by simp
qed

lemma generatePie_crs:
  assumes "generatePie m pp z = Inr (pp', z')" and "crs z"
  shows "crs z'" and "nzones z' = nzones z + nat (nzones_x m) * nat (nzones_y m)"
proof -
  from assms(1) have run: "z' = fold (\<lambda>j. fold (pie_zone m j) [0..nzones_x m - 1]) [0..nzones_y m - 1] z"
    by (auto simp add: generatePie_def Let_def reserving_eq_Inr)
  have one: "crs (pie_zone m j i s)" if "crs s" for j i s
    using pie_zone_push [of m j i s] that by (auto simp add: crs_push_zone)
  show "crs z'" unfolding run
  proof (rule fold_preserves [where I = crs, OF \<open>crs z\<close>])
    fix j s
    assume "crs s"
    then show "crs (fold (pie_zone m j) [0..nzones_x m - 1] s)"
      by (rule fold_preserves [where I = crs]) (rule one)
  qed
  have cnt: "nzones (pie_zone m j i s) = nzones s + 1" for j i s
    using pie_zone_push [of m j i s] by (auto simp add: nzones_push_zone)
  have "nzones z' = nzones z + nat (nzones_x m) * length [0..nzones_y m - 1]" unfolding run
  proof (rule fold_counts [where \<mu> = nzones])
    fix j s
    have "nzones (fold (pie_zone m j) [0..nzones_x m - 1] s) = nzones s + 1 * length [0..nzones_x m - 1]"
      by (rule fold_counts [where \<mu> = nzones]) (rule cnt)
    then show "nzones (fold (pie_zone m j) [0..nzones_x m - 1] s) = nzones s + nat (nzones_x m)" by simp
  qed
  then show "nzones z' = nzones z + nat (nzones_x m) * nat (nzones_y m)" by simp
qed

lemma hex_zone_row_crs:
  assumes "hex_zone_row m pbase j s = Inr s'"
  shows "crs s \<Longrightarrow> crs s'" and "nzones s' = nzones s + nat (nzones_x m)"
proof -
  from assms obtain pl ph where
    run: "s' = fold (\<lambda>i. push_zone (hex_vertices m pl ph j i)) [0..nzones_x m - 1] s"
    by (auto simp add: hex_zone_row_def Let_def rbind_eq_Inr)
  show "crs s'" if "crs s" unfolding run
    by (rule fold_preserves [where I = crs, OF that]) (rule crs_push_zone)
  have "nzones s' = nzones s + 1 * length [0..nzones_x m - 1]" unfolding run
    by (rule fold_counts [where \<mu> = nzones]) (simp add: nzones_push_zone)
  then show "nzones s' = nzones s + nat (nzones_x m)" by simp
qed

lemma generateHex_crs:
  assumes "generateHex m pp z = Inr (pp', z')" and "crs z"
  shows "crs z'" and "nzones z' = nzones z + nat (nzones_x m) * nat (nzones_y m)"
proof -
  from assms(1) obtain pbase where run: "forM [0..nzones_y m - 1] (hex_zone_row m pbase) z = Inr z'"
    by (auto simp add: generateHex_def rbind_eq_Inr reserving_eq_Inr)
  show "crs z'"
    by (rule forM_preserves [where I = crs, OF run \<open>crs z\<close>]) (rule hex_zone_row_crs(1))
  have "nzones z' = nzones z + nat (nzones_x m) * length [0..nzones_y m - 1]"
    by (rule forM_counts [where \<mu> = nzones, OF run]) (rule hex_zone_row_crs(2))
  then show "nzones z' = nzones z + nat (nzones_x m) * nat (nzones_y m)" by simp
qed

subsection \<open>Loops that only append\<close>

lemma forM_appends:
  fixes \<pi> :: "'s \<Rightarrow> 'a list"
  assumes "forM xs f s = Inr s'"
    and "\<And>x s s'. x \<in> set xs \<Longrightarrow> f x s = Inr s' \<Longrightarrow> \<pi> s' = \<pi> s @ g x"
  shows "\<pi> s' = \<pi> s @ concat (map g xs)"
  using assms
proof (induction xs arbitrary: s)
  case Nil
  then show ?case by simp
next
  case (Cons x xs)
  from Cons.prems(1) obtain t where t: "f x s = Inr t" "forM xs f t = Inr s'"
    by (auto split: sum.splits)
  have "\<pi> t = \<pi> s @ g x" using Cons.prems(2) [of x s t] t(1) by simp
  moreover have "\<pi> s' = \<pi> t @ concat (map g xs)"
  proof (rule Cons.IH [OF t(2)])
    fix y u u'
    assume "y \<in> set xs" "f y u = Inr u'"
    then show "\<pi> u' = \<pi> u @ g y" using Cons.prems(2) [of y u u'] by simp
  qed
  ultimately show ?case by simp
qed

lemma fold_appends:
  fixes \<pi> :: "'s \<Rightarrow> 'a list"
  assumes "\<And>x s. x \<in> set xs \<Longrightarrow> \<pi> (f x s) = \<pi> s @ g x"
  shows "\<pi> (fold f xs s) = \<pi> s @ concat (map g xs)"
  using assms by (induction xs arbitrary: s) simp_all

text \<open>Position \<open>j * n + i\<close> of a row-major list with rows of length \<open>n\<close>.\<close>

lemma nth_concat_rows:
  assumes "\<And>y. y \<in> set ys \<Longrightarrow> length (f y) = n" and "j < length ys" and "i < n"
  shows "concat (map f ys) ! (j * n + i) = f (ys ! j) ! i"
  using assms
proof (induction ys arbitrary: j)
  case Nil
  then show ?case by simp
next
  case (Cons y ys)
  have ly: "length (f y) = n" using Cons.prems(1) by simp
  show ?case
  proof (cases j)
    case 0
    then show ?thesis using ly Cons.prems(3) by (simp add: nth_append)
  next
    case (Suc k)
    then have "concat (map f (y # ys)) ! (j * n + i) = concat (map f ys) ! (k * n + i)"
      using ly by (simp add: nth_append)
    also have "\<dots> = f (ys ! k) ! i"
      using Cons.prems Suc by (intro Cons.IH) simp_all
    finally show ?thesis using Suc by simp
  qed
qed

lemma nth_rows_upto:
  assumes "0 \<le> j" "j < b" "0 \<le> i" "i < a"
  shows "concat (map (\<lambda>j. map (g j) [0..a - 1]) [0..b - 1]) ! nat (j * a + i) = g j i"
proof -
  have "nat (j * a + i) = nat j * nat a + nat i"
    using assms by (simp add: nat_add_distrib nat_mult_distrib)
  moreover have "concat (map (\<lambda>j. map (g j) [0..a - 1]) [0..b - 1]) ! (nat j * nat a + nat i)
      = map (g ([0..b - 1] ! nat j)) [0..a - 1] ! nat i"
    using assms by (intro nth_concat_rows) simp_all
  ultimately show ?thesis using assms by simp
qed

subsection \<open>Zone sizes of the hex generator\<close>

lemma length_hex_vertices: "int (length (hex_vertices m pl ph j i)) = hex_nverts m j i"
  by (simp add: hex_vertices_def hex_nverts_def Let_def erase_def)

lemma hex_nverts_range: "hex_nverts m j i = 4 \<or> hex_nverts m j i = 5 \<or> hex_nverts m j i = 6"
  by (simp add: hex_nverts_def Let_def)

lemma hex_zone_row_sizes:
  assumes "hex_zone_row m pbase j s = Inr s'"
  shows "fst (snd s') = fst (snd s) @ map (hex_nverts m j) [0..nzones_x m - 1]"
proof -
  from assms obtain pl ph where
    run: "s' = fold (\<lambda>i. push_zone (hex_vertices m pl ph j i)) [0..nzones_x m - 1] s"
    by (auto simp add: hex_zone_row_def Let_def rbind_eq_Inr)
  have "fst (snd s') = fst (snd s) @ concat (map (\<lambda>i. [hex_nverts m j i]) [0..nzones_x m - 1])"
    unfolding run
    by (rule fold_appends [where \<pi> = "\<lambda>z. fst (snd z)"])
      (simp add: push_zone_def length_hex_vertices split: prod.splits)
  then show ?thesis by (simp add: concat_map_singleton)
qed

lemma generateHex_sizes:
  assumes "generateHex m pointpos (zs, [], zp) = Inr (pp, zonestart, zonesize, zonepoints)"
  shows "zonesize = concat (map (\<lambda>j. map (hex_nverts m j) [0..nzones_x m - 1]) [0..nzones_y m - 1])"
proof -
  from assms obtain pbase where
    run: "forM [0..nzones_y m - 1] (hex_zone_row m pbase) (zs, [], zp) = Inr (zonestart, zonesize, zonepoints)"
    by (auto simp add: generateHex_def rbind_eq_Inr reserving_eq_Inr)
  have "fst (snd (zonestart, zonesize, zonepoints))
      = fst (snd (zs, [], zp)) @ concat (map (\<lambda>j. map (hex_nverts m j) [0..nzones_x m - 1]) [0..nzones_y m - 1])"
    by (rule forM_appends [where \<pi> = "\<lambda>z. fst (snd z)", OF run]) (rule hex_zone_row_sizes)
  then show ?thesis by simp
qed

text \<open>
  Claim C5 says that every hex zone has 3, 4 or 6 vertices and that the zones in the corners
  of the global mesh are triangles. The generator removes one template vertex from a zone on
  one global boundary and two from the bottom right and the top left corner, so the sizes
  are 6, 5 and 4. On the 2 by 2 mesh of a single rank all four zones are corner zones; their
  sizes are 5, 4, 4 and 5.
\<close>

theorem generateHex_corner_counterexample:
  "map_sum id (fst \<circ> snd \<circ> snd) (generateHex (projr (rank_mesh ''hex'' 2 2 1 1 0)) [] ([], [], []))
     = Inr [5, 4, 4, 5]"
  by code_simp

text \<open>
  Claim C5, amended. Every zone that the hex generator emits has 4, 5 or 6 vertices, and the
  zones in the corner positions of the global mesh (first or last global column and first or
  last global row) have 4 or 5 vertices. The zone at local position \<open>(i, j)\<close> is zone number
  \<open>j * nzones_x + i\<close>.
\<close>

theorem generateHex_zonesize:
  assumes run: "generateHex m pointpos ([], [], []) = Inr (pp, zonestart, zonesize, zonepoints)"
  shows "(\<forall>n \<in> set zonesize. n = 4 \<or> n = 5 \<or> n = 6)
       \<and> (\<forall>j i. 0 \<le> j \<and> j < nzones_y m \<and> 0 \<le> i \<and> i < nzones_x m
              \<and> (i + zone_x_offset m = 0 \<or> i + zone_x_offset m = global_nzones_x m - 1)
              \<and> (j + zone_y_offset m = 0 \<or> j + zone_y_offset m = global_nzones_y m - 1)
            \<longrightarrow> zonesize ! nat (j * nzones_x m + i) = 4 \<or> zonesize ! nat (j * nzones_x m + i) = 5)"
proof -
  note sizes = generateHex_sizes [OF run]
  have "\<forall>n \<in> set zonesize. n = 4 \<or> n = 5 \<or> n = 6"
    unfolding sizes using hex_nverts_range by auto
  moreover have "zonesize ! nat (j * nzones_x m + i) = 4 \<or> zonesize ! nat (j * nzones_x m + i) = 5"
    if "0 \<le> j" "j < nzones_y m" "0 \<le> i" "i < nzones_x m"
      and "i + zone_x_offset m = 0 \<or> i + zone_x_offset m = global_nzones_x m - 1"
      and "j + zone_y_offset m = 0 \<or> j + zone_y_offset m = global_nzones_y m - 1" for j i
  proof -
    have "zonesize ! nat (j * nzones_x m + i) = hex_nverts m j i"
      unfolding sizes using that(1-4) by (rule nth_rows_upto)
    then show ?thesis using that(5,6) by (auto simp add: hex_nverts_def Let_def)
  qed
  ultimately show ?thesis by blast
qed

theorem generateHex_zonesize_witness:
  "generateHex (projr (rank_mesh ''hex'' 2 2 1 1 0)) [] ([], [], [])
     = Inr ([(0, 0), (1 / 2, 0), (1, 0), (0, 1 / 2), (1 / 3, 2 / 3), (2 / 3, 1 / 3), (1, 1 / 2),
             (0, 1), (1 / 2, 1), (1, 1)],
            [0, 5, 9, 13], [5, 4, 4, 5], [0, 1, 5, 4, 3, 1, 2, 6, 5, 3, 4, 8, 7, 4, 5, 6, 9, 8])
   \<and> list_all (\<lambda>n. n = 4 \<or> n = 5 \<or> n = 6) [5, 4, 4, 5 :: int]
   \<and> (0::int) \<le> 1 \<and> 1 < nzones_y (projr (rank_mesh ''hex'' 2 2 1 1 0))
   \<and> (0::int) \<le> 0 \<and> 0 < nzones_x (projr (rank_mesh ''hex'' 2 2 1 1 0))
   \<and> 0 + zone_x_offset (projr (rank_mesh ''hex'' 2 2 1 1 0)) = 0
   \<and> 1 + zone_y_offset (projr (rank_mesh ''hex'' 2 2 1 1 0))
       = global_nzones_y (projr (rank_mesh ''hex'' 2 2 1 1 0)) - 1
   \<and> ([5, 4, 4, 5 :: int] ! nat (1 * nzones_x (projr (rank_mesh ''hex'' 2 2 1 1 0)) + 0) = 4
      \<or> [5, 4, 4, 5 :: int] ! nat (1 * nzones_x (projr (rank_mesh ''hex'' 2 2 1 1 0)) + 0) = 5)"
proof -
  have run: "generateHex (projr (rank_mesh ''hex'' 2 2 1 1 0)) [] ([], [], [])
     = Inr ([(0, 0), (1 / 2, 0), (1, 0), (0, 1 / 2), (1 / 3, 2 / 3), (2 / 3, 1 / 3), (1, 1 / 2),
             (0, 1), (1 / 2, 1), (1, 1)],
            [0, 5, 9, 13], [5, 4, 4, 5], [0, 1, 5, 4, 3, 1, 2, 6, 5, 3, 4, 8, 7, 4, 5, 6, 9, 8])"
    by code_simp
  have pos: "1 < nzones_y (projr (rank_mesh ''hex'' 2 2 1 1 0))"
    "0 < nzones_x (projr (rank_mesh ''hex'' 2 2 1 1 0))"
    "0 + zone_x_offset (projr (rank_mesh ''hex'' 2 2 1 1 0)) = 0"
    "1 + zone_y_offset (projr (rank_mesh ''hex'' 2 2 1 1 0))
       = global_nzones_y (projr (rank_mesh ''hex'' 2 2 1 1 0)) - 1"
    by code_simp+
  from generateHex_zonesize [OF run]
  have all: "\<forall>n \<in> set [5, 4, 4, 5 :: int]. n = 4 \<or> n = 5 \<or> n = 6"
    and corner: "\<And>j i. 0 \<le> j \<and> j < nzones_y (projr (rank_mesh ''hex'' 2 2 1 1 0))
              \<and> 0 \<le> i \<and> i < nzones_x (projr (rank_mesh ''hex'' 2 2 1 1 0))
              \<and> (i + zone_x_offset (projr (rank_mesh ''hex'' 2 2 1 1 0)) = 0
                 \<or> i + zone_x_offset (projr (rank_mesh ''hex'' 2 2 1 1 0))
                    = global_nzones_x (projr (rank_mesh ''hex'' 2 2 1 1 0)) - 1)
              \<and> (j + zone_y_offset (projr (rank_mesh ''hex'' 2 2 1 1 0)) = 0
                 \<or> j + zone_y_offset (projr (rank_mesh ''hex'' 2 2 1 1 0))
                    = global_nzones_y (projr (rank_mesh ''hex'' 2 2 1 1 0)) - 1)
            \<Longrightarrow> [5, 4, 4, 5 :: int] ! nat (j * nzones_x (projr (rank_mesh ''hex'' 2 2 1 1 0)) + i) = 4
              \<or> [5, 4, 4, 5 :: int] ! nat (j * nzones_x (projr (rank_mesh ''hex'' 2 2 1 1 0)) + i) = 5"
    by blast+
  from corner [of 1 0] pos
  have "[5, 4, 4, 5 :: int] ! nat (1 * nzones_x (projr (rank_mesh ''hex'' 2 2 1 1 0)) + 0) = 4
      \<or> [5, 4, 4, 5 :: int] ! nat (1 * nzones_x (projr (rank_mesh ''hex'' 2 2 1 1 0)) + 0) = 5"
    by simp
  moreover from all have "list_all (\<lambda>n. n = 4 \<or> n = 5 \<or> n = 6) [5, 4, 4, 5 :: int]"
    by (simp only: list_all_iff)
  ultimately show ?thesis using run pos by simp
qed

subsection \<open>Decoding the CRS form\<close>

lemma fold_push_zone:
  "fold push_zone vs (zs, zsz, zp)
     = (zs @ map (\<lambda>k. int (length zp) + int (length (concat (take k vs)))) [0..<length vs],
        zsz @ map (\<lambda>v. int (length v)) vs,
        zp @ concat vs)"
proof (induction vs rule: rev_induct)
  case Nil
  then show ?case by simp
next
  case (snoc v vs)
  have "map (\<lambda>k. int (length zp) + int (length (concat (take k (vs @ [v]))))) [0..<length vs]
      = map (\<lambda>k. int (length zp) + int (length (concat (take k vs)))) [0..<length vs]"
    by (rule map_cong) simp_all
  with snoc show ?case by (simp add: push_zone_def)
qed

lemma concat_nth_start:
  assumes "k < length vs" and "vs ! k \<noteq> []"
  shows "concat vs ! length (concat (take k vs)) = hd (vs ! k)"
proof -
  have "vs = take k vs @ vs ! k # drop (Suc k) vs"
    using assms(1) by (rule id_take_nth_drop)
  then have "concat vs = concat (take k vs) @ vs ! k @ concat (drop (Suc k) vs)"
    by (metis concat.simps(2) concat_append)
  then show ?thesis using assms(2) by (simp add: nth_append hd_conv_nth)
qed

subsection \<open>The pie generator\<close>

lemma pie_points_rows:
  "pie_points m pp
     = pp @ concat (map (\<lambda>j. if j + zone_y_offset m = 0 then [(0, 0)]
                             else map (pie_coordinate m j) [0..num_points_x m - 1])
                   [0..num_points_y m - 1])"
proof -
  have inner: "fold (\<lambda>i pointpos. pointpos @ [g i]) xs pointpos = pointpos @ map g xs"
    for g :: "int \<Rightarrow> double2" and xs pointpos
    by (induction xs arbitrary: pointpos) simp_all
  show ?thesis
    unfolding pie_points_def pie_coordinate_def Let_def inner
    by (rule fold_appends [where \<pi> = "\<lambda>p. p"]) simp
qed

lemma fold_concat_rows: "fold f (concat xss) = fold (fold f) xss"
  by (induction xss) simp_all

lemma generatePie_zones:
  assumes "generatePie m pointpos z = Inr (pp, z')"
  shows "z' = fold push_zone
           (concat (map (\<lambda>j. map (pie_vertices m j) [0..nzones_x m - 1]) [0..nzones_y m - 1])) z"
proof -
  have row: "fold (pie_zone m j) xs = fold push_zone (map (pie_vertices m j) xs)" for j xs
    by (simp add: fold_map comp_def pie_zone_def [abs_def])
  from assms have "z' = fold (\<lambda>j. fold (pie_zone m j) [0..nzones_x m - 1]) [0..nzones_y m - 1] z"
    by (auto simp add: generatePie_def Let_def reserving_eq_Inr)
  then show ?thesis
    by (simp add: row fold_concat_rows fold_map comp_def)
qed

lemma length_rows: "length (concat (map (\<lambda>j. map (g j) xs) ys)) = length xs * length ys"
  by (induction ys) simp_all

text \<open>
  Claim C7. For a pie mesh on a rank with \<^verbatim>\<open>zone_y_offset == 0\<close> (and at least one row of
  points), called with empty vectors: row \<open>j = 0\<close> contributes the single point \<open>(0, 0)\<close>, the
  pole, stored first, whatever \<open>i\<close> is, and every other row contributes its
  \<open>num_points_x\<close> points in raster order, at the polar coordinates of the position and with
  no permutation; every zone of row \<open>j = 0\<close> has size 3 and the pole, local index 0, as its
  first vertex; every zone of another row has size 4. The zone at \<open>(i, j)\<close> is zone number
  \<open>j * nzones_x + i\<close>.
\<close>

theorem generatePie_pole_row:
  assumes zyo: "zone_y_offset m = 0" and npy: "1 \<le> num_points_y m"
    and run: "generatePie m [] ([], [], []) = Inr (pointpos, zonestart, zonesize, zonepoints)"
  shows "pointpos = (0, 0) # concat (map (\<lambda>j. map (pie_coordinate m j) [0..num_points_x m - 1])
                                      [1..num_points_y m - 1])
       \<and> (\<forall>j i. 0 \<le> j \<and> j < nzones_y m \<and> 0 \<le> i \<and> i < nzones_x m \<longrightarrow>
              zonesize ! nat (j * nzones_x m + i) = (if j = 0 then 3 else 4)
              \<and> (j = 0 \<longrightarrow> zonepoints ! nat (zonestart ! nat (j * nzones_x m + i)) = 0))"
proof -
  have "pointpos = pie_points m []"
    using run by (auto simp add: generatePie_def Let_def reserving_eq_Inr)
  also have "\<dots> = concat (map (\<lambda>j. if j + zone_y_offset m = 0 then [(0, 0)]
                                   else map (pie_coordinate m j) [0..num_points_x m - 1])
                         (0 # [1..num_points_y m - 1]))"
    using npy by (simp add: pie_points_rows upto_rec1 [of 0])
  also have "\<dots> = (0, 0) # concat (map (\<lambda>j. if j + zone_y_offset m = 0 then [(0, 0)]
                                   else map (pie_coordinate m j) [0..num_points_x m - 1])
                         [1..num_points_y m - 1])"
    using zyo by simp
  also have "map (\<lambda>j. if j + zone_y_offset m = 0 then [(0, 0)]
                      else map (pie_coordinate m j) [0..num_points_x m - 1]) [1..num_points_y m - 1]
      = map (\<lambda>j. map (pie_coordinate m j) [0..num_points_x m - 1]) [1..num_points_y m - 1]"
    using zyo by (intro map_cong) auto
  finally have points: "pointpos = (0, 0) # concat (map (\<lambda>j. map (pie_coordinate m j)
      [0..num_points_x m - 1]) [1..num_points_y m - 1])" .
  define vs where "vs = concat (map (\<lambda>j. map (pie_vertices m j) [0..nzones_x m - 1]) [0..nzones_y m - 1])"
  from generatePie_zones [OF run]
  have "(zonestart, zonesize, zonepoints) = fold push_zone vs ([], [], [])"
    by (simp add: vs_def)
  then have zst: "zonestart = map (\<lambda>k. int (length (concat (take k vs)))) [0..<length vs]"
    and zsz: "zonesize = map (\<lambda>v. int (length v)) vs" and zp: "zonepoints = concat vs"
    by (simp_all add: fold_push_zone)
  have zone: "zonesize ! nat (j * nzones_x m + i) = (if j = 0 then 3 else 4)
        \<and> (j = 0 \<longrightarrow> zonepoints ! nat (zonestart ! nat (j * nzones_x m + i)) = 0)"
    if "0 \<le> j" "j < nzones_y m" "0 \<le> i" "i < nzones_x m" for j i
  proof -
    let ?k = "nat (j * nzones_x m + i)"
    have "nat j * nat (nzones_x m) + nat i < nat (nzones_x m) + nat j * nat (nzones_x m)"
      using that by simp
    also have "\<dots> = Suc (nat j) * nat (nzones_x m)" by simp
    also have "\<dots> \<le> nat (nzones_y m) * nat (nzones_x m)"
      using that by (intro mult_le_mono1) simp
    finally have k: "?k < length vs"
      using that by (simp add: vs_def length_rows nat_add_distrib nat_mult_distrib mult.commute)
    have v: "vs ! ?k = pie_vertices m j i"
      unfolding vs_def using that by (rule nth_rows_upto)
    have size: "zonesize ! ?k = (if j = 0 then 3 else 4)"
      using k v zyo by (simp add: zsz pie_vertices_def Let_def)
    have ne: "vs ! ?k \<noteq> []"
      unfolding v by (simp add: pie_vertices_def Let_def)
    have first: "j = 0 \<longrightarrow> hd (vs ! ?k) = 0"
      unfolding v using zyo by (simp add: pie_vertices_def Let_def)
    have "zonepoints ! nat (zonestart ! ?k) = hd (vs ! ?k)"
      using k ne by (simp add: zst zp concat_nth_start)
    with first have "j = 0 \<longrightarrow> zonepoints ! nat (zonestart ! ?k) = 0"
      by (simp only:)
    with size show ?thesis by simp
  qed
  from points zone show ?thesis by blast
qed

theorem generatePie_pole_row_witness:
  "zone_y_offset (projr (rank_mesh ''pie'' 2 2 1 1 0)) = 0
   \<and> 1 \<le> num_points_y (projr (rank_mesh ''pie'' 2 2 1 1 0))
   \<and> generatePie (projr (rank_mesh ''pie'' 2 2 1 1 0)) [] ([], [], [])
       = Inr (pie_points (projr (rank_mesh ''pie'' 2 2 1 1 0)) [],
              [0, 3, 6, 10], [3, 3, 4, 4], [0, 2, 1, 0, 3, 2, 1, 2, 5, 4, 2, 3, 6, 5])
   \<and> pie_points (projr (rank_mesh ''pie'' 2 2 1 1 0)) []
       = (0, 0) # concat (map (\<lambda>j. map (pie_coordinate (projr (rank_mesh ''pie'' 2 2 1 1 0)) j)
                                   [0..num_points_x (projr (rank_mesh ''pie'' 2 2 1 1 0)) - 1])
                            [1..num_points_y (projr (rank_mesh ''pie'' 2 2 1 1 0)) - 1])
   \<and> [3, 3, 4, 4 :: int] ! nat (0 * nzones_x (projr (rank_mesh ''pie'' 2 2 1 1 0)) + 1) = 3
   \<and> [0, 2, 1, 0, 3, 2, 1, 2, 5, 4, 2, 3, 6, 5 :: int]
        ! nat ([0, 3, 6, 10] ! nat (0 * nzones_x (projr (rank_mesh ''pie'' 2 2 1 1 0)) + 1)) = 0
   \<and> [3, 3, 4, 4 :: int] ! nat (1 * nzones_x (projr (rank_mesh ''pie'' 2 2 1 1 0)) + 0) = 4"
proof -
  let ?M = "projr (rank_mesh ''pie'' 2 2 1 1 0)"
  have fields: "zone_y_offset ?M = 0" "num_points_y ?M = 3" "num_points_x ?M = 3"
    "nzones_x ?M = 2" "nzones_y ?M = 2" "num_zones ?M = 4" "proc_index_y ?M = 0"
    by code_simp+
  have ranges: "[0..(1::int)] = [0, 1]"
    by code_simp
  have run: "generatePie ?M [] ([], [], [])
       = Inr (pie_points ?M [], [0, 3, 6, 10], [3, 3, 4, 4], [0, 2, 1, 0, 3, 2, 1, 2, 5, 4, 2, 3, 6, 5])"
    by (simp add: generatePie_def reserving_def fields ranges pie_zone_def pie_vertices_def
        push_zone_def)
  have npy: "1 \<le> num_points_y ?M"
    by (simp add: fields)
  from generatePie_pole_row [OF fields(1) npy run]
  have points: "pie_points ?M []
       = (0, 0) # concat (map (\<lambda>j. map (pie_coordinate ?M j) [0..num_points_x ?M - 1])
                            [1..num_points_y ?M - 1])"
    and zone: "\<And>j i. 0 \<le> j \<and> j < nzones_y ?M \<and> 0 \<le> i \<and> i < nzones_x ?M \<Longrightarrow>
              [3, 3, 4, 4 :: int] ! nat (j * nzones_x ?M + i) = (if j = 0 then 3 else 4)
              \<and> (j = 0 \<longrightarrow> [0, 2, 1, 0, 3, 2, 1, 2, 5, 4, 2, 3, 6, 5 :: int]
                     ! nat ([0, 3, 6, 10] ! nat (j * nzones_x ?M + i)) = 0)"
    by blast+
  from zone [of 0 1] zone [of 1 0] points run fields(1) npy show ?thesis
    by (simp add: fields)
qed

subsection \<open>Loops over mapped and concatenated ranges\<close>

lemma forM_map: "forM (map g xs) f s = forM xs (\<lambda>x. f (g x)) s"
  by (induction xs arbitrary: s) (simp_all split: sum.splits)

lemma forM_concat: "forM (concat xss) f s = forM xss (\<lambda>xs. forM xs f) s"
  by (induction xss arbitrary: s) (simp_all add: forM_append rbind_def split: sum.splits)

lemma forM_append_fun: "forM (xs @ ys) f = (\<lambda>s. rbind (forM xs f s) (forM ys f))"
  by (rule ext) (rule forM_append)

lemma forM_map_fun: "forM (map g xs) f = forM xs (\<lambda>x. f (g x))"
  by (rule ext) (rule forM_map)

lemma forM_concat_fun: "forM (concat xss) f = forM xss (\<lambda>xs. forM xs f)"
  by (rule ext) (rule forM_concat)

lemma forM_cong:
  assumes "\<And>x s. x \<in> set xs \<Longrightarrow> f x s = g x s"
  shows "forM xs f s = forM xs g s"
  using assms by (induction xs arbitrary: s) (simp_all split: sum.splits)

text \<open>An invariant indexed by the part of the list already processed.\<close>

lemma forM_prefix_invariant:
  assumes run: "forM xs f s = Inr s'" and init: "I [] s"
    and step: "\<And>pre x post t t'. xs = pre @ x # post \<Longrightarrow> I pre t \<Longrightarrow> f x t = Inr t'
                 \<Longrightarrow> I (pre @ [x]) t'"
  shows "I xs s'"
proof -
  have "I (pre @ post) s'" if "xs = pre @ post" "I pre t" "forM post f t = Inr s'" for pre post t
    using that
  proof (induction post arbitrary: pre t)
    case Nil
    then show ?case by simp
  next
    case (Cons x post)
    from Cons.prems(3) obtain t' where t': "f x t = Inr t'" "forM post f t' = Inr s'"
      by (auto split: sum.splits)
    have "I (pre @ [x]) t'"
      using step [OF Cons.prems(1) Cons.prems(2) t'(1)] .
    from Cons.IH [OF _ this t'(2)] Cons.prems(1) show ?case by simp
  qed
  from this [of "[]" xs s] run init show ?thesis by simp
qed

subsection \<open>The mu permutation as a sequence of assignments\<close>

lemma mu_block_cells:
  "mu_block npx wx wy by bx s = forM (block_cells npx wx wy by bx) assign s"
  by (simp add: mu_block_def block_cells_def forM_append_fun forM_map_fun forM_concat_fun)

lemma muPermutation_cells:
  assumes "muPermutation npx npy nbx nby = Inr prm"
  shows "\<exists>wx wy cnt. idiv (npx - 1) nbx = Inr wx \<and> idiv (npy - 1) nby = Inr wy
           \<and> (wx * nbx + 1 = npx \<or> nbx = 1) \<and> (wy * nby + 1 = npy \<or> nby = 1)
           \<and> 0 \<le> npx * npy
           \<and> forM (mu_cells npx wx wy nbx nby) assign (replicate (nat (npx * npy)) 0, 0) = Inr (prm, npx * npy)"
  using assms
proof -
  have blocks: "forM (concat (map (\<lambda>block_y. concat (map (block_cells npx wx wy block_y) [0..nbx - 1]))
                        [0..nby - 1])) assign
      = forM [0..nby - 1] (\<lambda>block_y. forM [0..nbx - 1] (mu_block npx wx wy block_y))" for wx wy
    by (simp add: forM_concat_fun forM_map_fun mu_block_cells [abs_def])
  from assms show ?thesis
    by (auto simp add: muPermutation_def int32_def rbind_eq_Inr mu_cells_def blocks
        split: if_splits sum.splits)
qed

lemma assign_eq_Inr:
  "assign k s = Inr t \<longleftrightarrow>
     0 \<le> k \<and> k < int (length (fst s)) \<and> t = ((fst s)[nat k := snd s], snd s + 1)"
  by (cases s) (auto simp add: assign_def vput_def)

lemma assign_run:
  assumes run: "forM ks assign (p0, c0) = Inr (p, c)"
  shows "c = c0 + int (length ks)" and "length p = length p0"
    and "\<forall>k \<in> set ks. 0 \<le> k \<and> k < int (length p0)"
proof -
  let ?I = "\<lambda>pre s. snd s = c0 + int (length pre) \<and> length (fst s) = length p0
              \<and> (\<forall>k \<in> set pre. 0 \<le> k \<and> k < int (length p0))"
  have "?I ks (p, c)"
    by (rule forM_prefix_invariant [where I = ?I, OF run]) (auto simp add: assign_eq_Inr)
  then show "c = c0 + int (length ks)" and "length p = length p0"
    and "\<forall>k \<in> set ks. 0 \<le> k \<and> k < int (length p0)"
    by simp_all
qed

lemma assign_values:
  assumes run: "forM ks assign (p0, c0) = Inr (p, c)" and d: "distinct ks"
  shows "\<forall>i < length ks. p ! nat (ks ! i) = c0 + int i"
proof -
  let ?I = "\<lambda>pre s. snd s = c0 + int (length pre) \<and> (\<forall>k \<in> set pre. 0 \<le> k)
              \<and> (\<forall>i < length pre. fst s ! nat (pre ! i) = c0 + int i)"
  have "?I ks (p, c)"
  proof (rule forM_prefix_invariant [where I = ?I, OF run])
    show "?I [] (p0, c0)" by simp
  next
    fix pre x post t t'
    assume split: "ks = pre @ x # post" and inv: "?I pre t" and step: "assign x t = Inr t'"
    from step have x: "0 \<le> x" "x < int (length (fst t))"
      and t': "t' = ((fst t)[nat x := snd t], snd t + 1)"
      by (simp_all add: assign_eq_Inr)
    from d split have fresh: "x \<notin> set pre" by simp
    have "fst t' ! nat ((pre @ [x]) ! i) = c0 + int i" if "i < length (pre @ [x])" for i
    proof (cases "i < length pre")
      case True
      then have "pre ! i \<in> set pre" by simp
      with fresh inv have "nat (pre ! i) \<noteq> nat x" "0 \<le> pre ! i"
        using x(1) by (auto simp add: nat_eq_iff)
      with True inv show ?thesis by (simp add: t' nth_append)
    next
      case False
      with that have "i = length pre" by simp
      then show ?thesis using x inv by (simp add: t' nth_append)
    qed
    with inv x show "?I (pre @ [x]) t'" by (simp add: t')
  qed
  then show ?thesis by simp
qed

subsection \<open>Mutually inverse index vectors\<close>

lemma inverse_vectors:
  fixes f g :: "int list"
  assumes fg: "\<forall>i < n. 0 \<le> f ! i \<and> f ! i < int n \<and> g ! nat (f ! i) = int i"
  shows "\<forall>p < n. 0 \<le> g ! p \<and> g ! p < int n \<and> f ! nat (g ! p) = int p"
proof -
  define h where "h = (\<lambda>i. nat (f ! i))"
  have h: "h i < n" "g ! h i = int i" "int (h i) = f ! i" if "i < n" for i
  proof -
    from fg that have "0 \<le> f ! i" "f ! i < int n" "g ! nat (f ! i) = int i" by blast+
    then show "h i < n" "g ! h i = int i" "int (h i) = f ! i"
      unfolding h_def by linarith+
  qed
  have inj: "inj_on h {..<n}"
  proof (rule inj_onI)
    fix i j
    assume ij: "i \<in> {..<n}" "j \<in> {..<n}" "h i = h j"
    have "int i = g ! h i" using h(2) [of i] ij(1) by simp
    also have "\<dots> = g ! h j" by (simp only: ij(3))
    also have "\<dots> = int j" using h(2) [of j] ij(2) by simp
    finally show "i = j" by simp
  qed
  have "h ` {..<n} \<subseteq> {..<n}" using h(1) by blast
  with inj have surj: "h ` {..<n} = {..<n}"
    by (intro endo_inj_surj) simp_all
  show ?thesis
  proof (intro allI impI)
    fix p
    assume "p < n"
    then have "p \<in> h ` {..<n}" unfolding surj by simp
    then obtain i where i: "i < n" "h i = p" by blast
    from h(2) [OF i(1)] i(2) have gp: "g ! p = int i" by simp
    from h(3) [OF i(1)] i(2) have "f ! i = int p" by simp
    with gp i(1) show "0 \<le> g ! p \<and> g ! p < int n \<and> f ! nat (g ! p) = int p"
      by simp
  qed
qed

lemma upto_as_upt: "[0..int n - 1] = map int [0..<n]"
proof (induction n)
  case 0
  then show ?case by simp
next
  case (Suc n)
  have "[0..int (Suc n) - 1] = [0..int n - 1] @ [int n]"
    using upto_rec2 [of 0 "int n"] by simp
  with Suc show ?case by simp
qed

text \<open>
  On a vector that has at least as many elements as the permutation, the inversion loop
  returns, and it stores the inverse.
\<close>

lemma invert_run:
  assumes lp: "length prm = n" and ls: "n \<le> length st"
    and rng: "\<forall>i < n. 0 \<le> prm ! i \<and> prm ! i < int n"
    and inj: "\<forall>i < n. \<forall>j < n. prm ! i = prm ! j \<longrightarrow> i = j"
  shows "\<exists>d. invert prm st = Inr d \<and> length d = length st \<and> (\<forall>i < n. d ! nat (prm ! i) = int i)"
proof -
  let ?step = "\<lambda>i d. rbind (vget prm i) (\<lambda>k. vput d k i)"
  have "\<exists>d. forM (map int [0..<k]) ?step st = Inr d \<and> length d = length st
             \<and> (\<forall>i < k. d ! nat (prm ! i) = int i)" if "k \<le> n" for k
    using that
  proof (induction k)
    case 0
    then show ?case by simp
  next
    case (Suc k)
    then obtain d where d: "forM (map int [0..<k]) ?step st = Inr d" "length d = length st"
      "\<forall>i < k. d ! nat (prm ! i) = int i"
      by auto
    from Suc.prems rng have r: "0 \<le> prm ! k" "prm ! k < int n" by auto
    have step: "?step (int k) d = Inr (d[nat (prm ! k) := int k])"
      using Suc.prems lp ls r d(2) by (simp add: vget_def vput_def)
    have "d[nat (prm ! k) := int k] ! nat (prm ! i) = int i" if "i < Suc k" for i
    proof (cases "i = k")
      case True
      then show ?thesis using r ls d(2) by simp
    next
      case False
      with that have i: "i < k" by simp
      have "prm ! i \<noteq> prm ! k"
      proof
        assume "prm ! i = prm ! k"
        moreover have "i < n" "k < n" using i Suc.prems by simp_all
        ultimately have "i = k" using inj by blast
        with i show False by simp
      qed
      moreover from i Suc.prems rng have "0 \<le> prm ! i" by auto
      ultimately have "nat (prm ! k) \<noteq> nat (prm ! i)" using r by (simp add: nat_eq_iff)
      with d(3) i show ?thesis by simp
    qed
    with d step show ?case by (simp add: forM_append)
  qed
  from this [of n] show ?thesis by (simp add: invert_def lp upto_as_upt)
qed

subsection \<open>Every grid cell is numbered\<close>

lemma split_offset:
  fixes x W n :: int
  assumes W: "1 \<le> W" and x: "1 \<le> x" "x \<le> W * n"
  obtains q r where "x = W * q + r" "1 \<le> r" "r \<le> W" "0 \<le> q" "q < n"
proof
  let ?q = "(x - 1) div W" and ?r = "(x - 1) mod W + 1"
  show "x = W * ?q + ?r" by simp
  show "1 \<le> ?r" using W by simp
  have "(x - 1) mod W < W" using W by (intro pos_mod_bound) simp
  then show "?r \<le> W" by simp
  show "0 \<le> ?q" using W x by (simp add: pos_imp_zdiv_nonneg_iff)
  have "W * ?q + (x - 1) mod W = x - 1" by simp
  moreover have "0 \<le> (x - 1) mod W" using W by simp
  ultimately have "W * ?q \<le> x - 1" by linarith
  with x have "W * ?q < W * n" by simp
  then show "?q < n" using W by (simp add: mult_less_cancel_left_pos)
qed

lemma in_mu_cells:
  assumes "0 \<le> by" "by < nby" "0 \<le> bx" "bx < nbx" "k \<in> set (block_cells npx wx wy by bx)"
  shows "k \<in> set (mu_cells npx wx wy nbx nby)"
proof -
  have "by \<in> set [0..nby - 1]" "bx \<in> set [0..nbx - 1]" using assms by simp_all
  with assms(5) show ?thesis unfolding mu_cells_def
    by (simp del: set_upto) blast
qed

lemma in_left_edge:
  assumes "1 \<le> oy" "oy \<le> wy"
  shows "linearize npx 0 (wy * by + oy) \<in> set (block_cells npx wx wy by 0)"
  using assms by (simp add: block_cells_def)

lemma in_top_edge:
  assumes "1 \<le> ox" "ox \<le> wx"
  shows "linearize npx (wx * bx + ox) 0 \<in> set (block_cells npx wx wy 0 bx)"
proof -
  have "linearize npx (wx * bx + ox) 0
      = (\<lambda>dx. linearize npx (bx * wx + 1 + dx) (wy * 0)) (ox - 1)"
    by (simp add: mult.commute)
  moreover have "ox - 1 \<in> set [0..wx - 1]" using assms by simp
  ultimately have "linearize npx (wx * bx + ox) 0
      \<in> set (map (\<lambda>dx. linearize npx (bx * wx + 1 + dx) (wy * 0)) [0..wx - 1])"
    unfolding set_map by (rule image_eqI)
  then show ?thesis unfolding block_cells_def by simp
qed

lemma in_right_edge:
  assumes "1 \<le> oy" "oy \<le> wy"
  shows "linearize npx (wx * bx + wx) (wy * by + oy) \<in> set (block_cells npx wx wy by bx)"
proof -
  have "linearize npx (wx * bx + wx) (wy * by + oy)
      = (\<lambda>dy. linearize npx (wx * (bx + 1)) (wy * by + 1 + dy)) (oy - 1)"
    by (simp add: distrib_left)
  moreover have "oy - 1 \<in> set [0..wy - 1]" using assms by simp
  ultimately have "linearize npx (wx * bx + wx) (wy * by + oy)
      \<in> set (map (\<lambda>dy. linearize npx (wx * (bx + 1)) (wy * by + 1 + dy)) [0..wy - 1])"
    unfolding set_map by (rule image_eqI)
  then show ?thesis unfolding block_cells_def by simp
qed

lemma in_bottom_edge:
  assumes "1 \<le> ox" "ox < wx"
  shows "linearize npx (wx * bx + ox) (wy * by + wy) \<in> set (block_cells npx wx wy by bx)"
proof -
  have "linearize npx (wx * bx + ox) (wy * by + wy)
      = (\<lambda>dx. linearize npx (wx * bx + 1 + dx) (wy * (by + 1))) (ox - 1)"
    by (simp add: distrib_left)
  moreover have "ox - 1 \<in> set [0..wx - 2]" using assms by simp
  ultimately have "linearize npx (wx * bx + ox) (wy * by + wy)
      \<in> set (map (\<lambda>dx. linearize npx (wx * bx + 1 + dx) (wy * (by + 1))) [0..wx - 2])"
    unfolding set_map by (rule image_eqI)
  then show ?thesis unfolding block_cells_def by simp
qed

lemma in_middle:
  assumes "1 \<le> ox" "ox < wx" "1 \<le> oy" "oy < wy"
  shows "linearize npx (wx * bx + ox) (wy * by + oy) \<in> set (block_cells npx wx wy by bx)"
proof -
  have "oy \<in> set [1..wy - 1]" "ox \<in> set [1..wx - 1]" using assms by simp_all
  then have "linearize npx (wx * bx + ox) (wy * by + oy)
      \<in> set (concat (map (\<lambda>dy. map (\<lambda>dx. linearize npx (wx * bx + dx) (wy * by + dy)) [1..wx - 1])
                        [1..wy - 1]))"
    by (simp del: set_upto) blast
  then show ?thesis unfolding block_cells_def by simp
qed

lemma mu_cells_cover:
  assumes W: "1 \<le> wx" and H: "1 \<le> wy" and nb: "1 \<le> nbx" "1 \<le> nby"
    and x: "0 \<le> x" "x \<le> wx * nbx" and y: "0 \<le> y" "y \<le> wy * nby"
  shows "linearize npx x y \<in> set (mu_cells npx wx wy nbx nby)"
proof (cases "x = 0")
  case x0: True
  show ?thesis
  proof (cases "y = 0")
    case True
    with x0 show ?thesis by (simp add: mu_cells_def linearize_def)
  next
    case False
    with y have "1 \<le> y" by simp
    from split_offset [OF H this y(2)] obtain cy oy where
      cy: "y = wy * cy + oy" "1 \<le> oy" "oy \<le> wy" "0 \<le> cy" "cy < nby" by blast
    have "(0::int) \<le> 0" "0 < nbx" using nb by simp_all
    from in_mu_cells [OF cy(4,5) this in_left_edge [OF cy(2,3)]] x0 cy(1)
    show ?thesis by simp
  qed
next
  case False
  with x have "1 \<le> x" by simp
  from split_offset [OF W this x(2)] obtain bx ox where
    bx: "x = wx * bx + ox" "1 \<le> ox" "ox \<le> wx" "0 \<le> bx" "bx < nbx" by blast
  show ?thesis
  proof (cases "y = 0")
    case True
    have "(0::int) \<le> 0" "0 < nby" using nb by simp_all
    from in_mu_cells [OF this bx(4,5) in_top_edge [OF bx(2,3)]] True bx(1)
    show ?thesis by simp
  next
    case False
    with y have "1 \<le> y" by simp
    from split_offset [OF H this y(2)] obtain cy oy where
      cy: "y = wy * cy + oy" "1 \<le> oy" "oy \<le> wy" "0 \<le> cy" "cy < nby" by blast
    have "linearize npx x y \<in> set (block_cells npx wx wy cy bx)"
    proof (cases "ox = wx")
      case True
      with in_right_edge [OF cy(2,3)] bx(1) cy(1) show ?thesis by simp
    next
      case ox: False
      with bx have lt: "ox < wx" by simp
      show ?thesis
      proof (cases "oy = wy")
        case True
        with in_bottom_edge [OF bx(2) lt] bx(1) cy(1) show ?thesis by simp
      next
        case False
        with cy have "oy < wy" by simp
        from in_middle [OF bx(2) lt cy(2) this] bx(1) cy(1) show ?thesis by simp
      qed
    qed
    from in_mu_cells [OF cy(4,5) bx(4,5) this] show ?thesis .
  qed
qed


subsection \<open>The mu permutation is a bijection\<close>

lemma sdiv_mult_self:
  fixes a b :: int
  assumes "b \<noteq> 0"
  shows "(a * b) sdiv b = a"
proof -
  have "sgn b * sgn b = 1" using assms by (simp add: sgn_if)
  then have "sgn (a * b) * sgn b = sgn a" by (simp add: sgn_mult mult.assoc)
  moreover have "\<bar>a * b\<bar> div \<bar>b\<bar> = \<bar>a\<bar>" using assms by (simp add: abs_mult)
  ultimately show ?thesis by (simp add: signed_divide_int_def mult_sgn_abs)
qed

lemma vector_permutation:
  fixes f g :: "int list"
  assumes len: "length f = n"
    and fg: "\<forall>i < n. 0 \<le> f ! i \<and> f ! i < int n \<and> g ! nat (f ! i) = int i"
  shows "distinct f" and "set f = {0..<int n}"
proof -
  show d: "distinct f"
    unfolding distinct_conv_nth
  proof (intro allI impI)
    fix i j
    assume i: "i < length f" and j: "j < length f" and ne: "i \<noteq> j"
    show "f ! i \<noteq> f ! j"
    proof
      assume eq: "f ! i = f ! j"
      have "int i = g ! nat (f ! i)" using fg i len by simp
      also have "\<dots> = g ! nat (f ! j)" by (simp only: eq)
      also have "\<dots> = int j" using fg j len by simp
      finally show False using ne by simp
    qed
  qed
  have sub: "set f \<subseteq> {0..<int n}"
  proof
    fix v
    assume "v \<in> set f"
    then obtain i where "i < length f" "f ! i = v" by (auto simp add: in_set_conv_nth)
    with fg len show "v \<in> {0..<int n}" by auto
  qed
  have "card (set f) = n" using d len by (simp add: distinct_card)
  then have "card (set f) = card {0..<int n}" by simp
  with sub show "set f = {0..<int n}" by (intro card_subset_eq) simp_all
qed

lemma int_div_less:
  fixes k a b :: int
  assumes "0 < a" "k < a * b"
  shows "k div a < b"
proof -
  have "k div a * a + k mod a = k" by simp
  moreover have "0 \<le> k mod a" using assms(1) by simp
  ultimately have "k div a * a \<le> k" by linarith
  with assms(2) have "k div a * a < b * a" by (simp add: mult.commute)
  then show ?thesis using assms(1) by (simp only: mult_less_cancel_right_pos)
qed

lemma muPermutation_good:
  assumes W: "1 \<le> wx" and H: "1 \<le> wy" and nb: "1 \<le> nbx" "1 \<le> nby"
    and run: "muPermutation (wx * nbx + 1) (wy * nby + 1) nbx nby = Inr prm"
  defines "n \<equiv> nat ((wx * nbx + 1) * (wy * nby + 1))"
  defines "ks \<equiv> mu_cells (wx * nbx + 1) wx wy nbx nby"
  shows "length prm = n"
    and "\<forall>i < n. 0 \<le> ks ! i \<and> ks ! i < int n \<and> prm ! nat (ks ! i) = int i"
proof -
  let ?npx = "wx * nbx + 1" and ?npy = "wy * nby + 1"
  have pos: "1 \<le> ?npx" "1 \<le> ?npy" using W H nb by simp_all
  then have npos: "0 \<le> ?npx * ?npy" by simp
  have wdx: "idiv (?npx - 1) nbx = Inr wx" and wdy: "idiv (?npy - 1) nby = Inr wy"
    using nb by (simp_all add: idiv_def sdiv_mult_self)
  from muPermutation_cells [OF run] wdx wdy
  have cells: "forM ks assign (replicate n 0, 0) = Inr (prm, ?npx * ?npy)"
    by (auto simp add: ks_def n_def)
  from assign_run [OF cells] npos
  have lks: "length ks = n" and lprm: "length prm = n"
    and rng: "\<forall>k \<in> set ks. 0 \<le> k \<and> k < int n"
    by (simp_all add: n_def)
  have cover: "k \<in> set ks" if "0 \<le> k" "k < int n" for k
  proof -
    have k: "k = linearize ?npx (k mod ?npx) (k div ?npx)"
      by (simp only: linearize_def div_mult_mod_eq)
    have npx: "0 < ?npx" using pos by linarith
    then have "0 \<le> k mod ?npx" "k mod ?npx < ?npx"
      by (rule pos_mod_sign, rule pos_mod_bound)
    then have x: "0 \<le> k mod ?npx" "k mod ?npx \<le> wx * nbx" by linarith+
    have "k < ?npx * ?npy" using that npos by (simp add: n_def)
    with npx have "k div ?npx < ?npy" by (rule int_div_less)
    moreover have "0 \<le> k div ?npx" using that(1) npx by (simp only: pos_imp_zdiv_nonneg_iff)
    ultimately have y: "0 \<le> k div ?npx" "k div ?npx \<le> wy * nby" by linarith+
    from mu_cells_cover [OF W H nb x y, of ?npx] k show ?thesis
      by (simp add: ks_def)
  qed
  with rng have "set ks = {0..<int n}" by auto
  then have "card (set ks) = length ks" using lks by simp
  then have "distinct ks" by (rule card_distinct)
  from assign_values [OF cells this] lks rng
  show "\<forall>i < n. 0 \<le> ks ! i \<and> ks ! i < int n \<and> prm ! nat (ks ! i) = int i"
    by simp
  show "length prm = n" by (rule lprm)
qed

lemma muPermutation_widths:
  assumes g: "1 \<le> gx" "1 \<le> gy" and nb: "1 \<le> nbx" "1 \<le> nby"
    and run: "muPermutation (gx + 1) (gy + 1) nbx nby = Inr prm"
  shows "gx = gx sdiv nbx * nbx" and "gy = gy sdiv nby * nby"
    and "1 \<le> gx sdiv nbx" and "1 \<le> gy sdiv nby"
proof -
  from muPermutation_cells [OF run] nb
  have "gx sdiv nbx * nbx + 1 = gx + 1 \<or> nbx = 1" "gy sdiv nby * nby + 1 = gy + 1 \<or> nby = 1"
    by (auto simp add: idiv_def)
  then show x: "gx = gx sdiv nbx * nbx" and y: "gy = gy sdiv nby * nby"
    by auto
  show "1 \<le> gx sdiv nbx"
  proof (rule ccontr)
    assume "\<not> 1 \<le> gx sdiv nbx"
    then have "gx sdiv nbx * nbx \<le> 0" using nb by (simp add: mult_le_0_iff)
    with x g show False by simp
  qed
  show "1 \<le> gy sdiv nby"
  proof (rule ccontr)
    assume "\<not> 1 \<le> gy sdiv nby"
    then have "gy sdiv nby * nby \<le> 0" using nb by (simp add: mult_le_0_iff)
    with y g show False by simp
  qed
qed

lemma muPermutation_bijection:
  assumes g: "1 \<le> gx" "1 \<le> gy" and nb: "1 \<le> nbx" "1 \<le> nby"
    and run: "muPermutation (gx + 1) (gy + 1) nbx nby = Inr prm"
  shows "int (length prm) = (gx + 1) * (gy + 1)" and "distinct prm"
    and "set prm = {0..<(gx + 1) * (gy + 1)}"
proof -
  define wx wy where "wx = gx sdiv nbx" and "wy = gy sdiv nby"
  note w = muPermutation_widths [OF g nb run, folded wx_def wy_def]
  define n where "n = nat ((wx * nbx + 1) * (wy * nby + 1))"
  have n: "int n = (gx + 1) * (gy + 1)"
    using w g by (simp add: n_def)
  from run w(1,2) have run': "muPermutation (wx * nbx + 1) (wy * nby + 1) nbx nby = Inr prm"
    by simp
  note good = muPermutation_good [OF w(3,4) nb run', folded n_def]
  from inverse_vectors [OF good(2)]
  have inv: "\<forall>p < n. 0 \<le> prm ! p \<and> prm ! p < int n
        \<and> mu_cells (wx * nbx + 1) wx wy nbx nby ! nat (prm ! p) = int p" .
  from vector_permutation [OF good(1) inv] good(1) n
  show "int (length prm) = (gx + 1) * (gy + 1)" and "distinct prm"
    and "set prm = {0..<(gx + 1) * (gy + 1)}"
    by simp_all
qed

lemma invert_permutation:
  assumes d: "distinct prm" and s: "set prm = {0..<int (length prm)}"
    and ls: "length prm \<le> length st"
  shows "\<exists>d. invert prm st = Inr d \<and> length d = length st
           \<and> (\<forall>i. 0 \<le> i \<and> i < int (length prm) \<longrightarrow>
                  rbind (vget d i) (vget prm) = Inr i \<and> rbind (vget prm i) (vget d) = Inr i)"
proof -
  define n where "n = length prm"
  have rng: "\<forall>i < n. 0 \<le> prm ! i \<and> prm ! i < int n"
  proof (intro allI impI)
    fix i
    assume "i < n"
    then have "prm ! i \<in> set prm" by (simp add: n_def)
    then show "0 \<le> prm ! i \<and> prm ! i < int n" unfolding s by (simp add: n_def)
  qed
  have inj: "\<forall>i < n. \<forall>j < n. prm ! i = prm ! j \<longrightarrow> i = j"
    using d by (simp add: n_def nth_eq_iff_index_eq)
  from invert_run [OF n_def [symmetric] ls [folded n_def] rng inj] obtain dp where
    dp: "invert prm st = Inr dp" "length dp = length st" "\<forall>i < n. dp ! nat (prm ! i) = int i"
    by blast
  from rng dp(3) have "\<forall>i < n. 0 \<le> prm ! i \<and> prm ! i < int n \<and> dp ! nat (prm ! i) = int i"
    by simp
  from inverse_vectors [OF this]
  have dinv: "\<forall>p < n. 0 \<le> dp ! p \<and> dp ! p < int n \<and> prm ! nat (dp ! p) = int p" .
  have "rbind (vget dp i) (vget prm) = Inr i \<and> rbind (vget prm i) (vget dp) = Inr i"
    if "0 \<le> i" "i < int (length prm)" for i
  proof -
    from that have i: "nat i < n" "int (nat i) = i" by (simp_all add: n_def)
    from dinv i(1) have b: "0 \<le> dp ! nat i" "dp ! nat i < int n" "prm ! nat (dp ! nat i) = i"
      using i(2) by auto
    from rng dp(3) i(1) have f: "0 \<le> prm ! nat i" "prm ! nat i < int n" "dp ! nat (prm ! nat i) = i"
      using i(2) by auto
    from b f that ls dp(2) show ?thesis
      by (simp add: vget_def n_def)
  qed
  with dp(1,2) show ?thesis by blast
qed

subsection \<open>The state of a rank\<close>

lemma int32_eq_Inr:
  "int32 v = Inr w \<longleftrightarrow> w = v \<and> - 2147483648 \<le> v \<and> v \<le> 2147483647"
  by (auto simp add: int32_def)

lemma local_extents_Inr:
  assumes nb: "num_proc_x m \<noteq> 0" "num_proc_y m \<noteq> 0"
    and run: "local_extents m color = Inr m1"
  shows "m1 = m\<lparr>my_color := color,
                 proc_index_x := color smod num_proc_x m, proc_index_y := color sdiv num_proc_x m,
                 zone_x_offset := color smod num_proc_x m * global_nzones_x m sdiv num_proc_x m,
                 nzones_x := (color smod num_proc_x m + 1) * global_nzones_x m sdiv num_proc_x m
                             - color smod num_proc_x m * global_nzones_x m sdiv num_proc_x m,
                 zone_y_offset := color sdiv num_proc_x m * global_nzones_y m sdiv num_proc_y m,
                 nzones_y := (color sdiv num_proc_x m + 1) * global_nzones_y m sdiv num_proc_y m
                             - color sdiv num_proc_x m * global_nzones_y m sdiv num_proc_y m,
                 num_zones := nzones_x m1 * nzones_y m1,
                 num_points_x := nzones_x m1 + 1, num_points_y := nzones_y m1 + 1\<rparr>"
    and "- 2147483648 \<le> color smod num_proc_x m * global_nzones_x m"
    and "(color smod num_proc_x m + 1) * global_nzones_x m \<le> 2147483647"
    and "- 2147483648 \<le> color sdiv num_proc_x m * global_nzones_y m"
    and "(color sdiv num_proc_x m + 1) * global_nzones_y m \<le> 2147483647"
  using run nb unfolding local_extents_def
  by (auto simp add: rbind_eq_Inr int32_eq_Inr idiv_def imod_def)

lemma sdiv_exact:
  fixes k a b :: int
  assumes "a = a sdiv b * b" "b \<noteq> 0"
  shows "k * a sdiv b = k * (a sdiv b)"
proof -
  define q where "q = a sdiv b"
  have "k * a = k * (q * b)" using assms(1) by (simp only: q_def)
  also have "\<dots> = k * q * b" by (simp only: mult.assoc)
  finally have "k * a sdiv b = k * q * b sdiv b" by (simp only:)
  also have "\<dots> = k * q" using assms(2) by (rule sdiv_mult_self)
  finally show ?thesis by (simp only: q_def)
qed

lemma rank_state_Inr:
  assumes g: "1 \<le> global_nzones_x m" "1 \<le> global_nzones_y m"
    and nb: "1 \<le> num_proc_x m" "1 \<le> num_proc_y m"
    and run: "rank_state m color = Inr m'"
  shows "m' = m\<lparr>my_color := color,
                 proc_index_x := color smod num_proc_x m, proc_index_y := color sdiv num_proc_x m,
                 zone_x_offset := color smod num_proc_x m * nzones_x m', nzones_x := nzones_x m',
                 zone_y_offset := color sdiv num_proc_x m * nzones_y m', nzones_y := nzones_y m',
                 num_zones := nzones_x m' * nzones_y m',
                 num_points_x := nzones_x m' + 1, num_points_y := nzones_y m' + 1,
                 global_perm := global_perm m', perm := perm m'\<rparr>"
    and "global_nzones_x m = nzones_x m' * num_proc_x m"
    and "global_nzones_y m = nzones_y m' * num_proc_y m"
    and "1 \<le> nzones_x m'" and "1 \<le> nzones_y m'"
    and "muPermutation (global_nzones_x m + 1) (global_nzones_y m + 1) (num_proc_x m) (num_proc_y m)
           = Inr (global_perm m')"
    and "muPermutation (nzones_x m' + 1) (nzones_y m' + 1) 1 1 = Inr (perm m')"
proof -
  let ?npx = "num_proc_x m" and ?npy = "num_proc_y m"
  let ?gx = "global_nzones_x m" and ?gy = "global_nzones_y m"
  let ?pix = "color smod ?npx" and ?piy = "color sdiv ?npx"
  have ne: "?npx \<noteq> 0" "?npy \<noteq> 0" using nb by simp_all
  from run obtain m1 gperm lperm where
    ext: "local_extents m color = Inr m1"
    and gp: "muPermutation (global_nzones_x m1 + 1) (global_nzones_y m1 + 1)
               (num_proc_x m1) (num_proc_y m1) = Inr gperm"
    and lp: "muPermutation (num_points_x m1) (num_points_y m1) 1 1 = Inr lperm"
    and m': "m' = m1\<lparr>global_perm := gperm, perm := lperm\<rparr>"
    unfolding rank_state_def by (auto simp add: rbind_eq_Inr int32_eq_Inr)
  note e = local_extents_Inr(1) [OF ne ext]
  have keep: "global_nzones_x m1 = ?gx" "global_nzones_y m1 = ?gy" "num_proc_x m1 = ?npx"
    "num_proc_y m1 = ?npy"
    by (subst e, simp)+
  have pts: "num_points_x m1 = nzones_x m1 + 1" "num_points_y m1 = nzones_y m1 + 1"
    by (subst e, simp)+
  define nzx where "nzx = (?pix + 1) * ?gx sdiv ?npx - ?pix * ?gx sdiv ?npx"
  define nzy where "nzy = (?piy + 1) * ?gy sdiv ?npy - ?piy * ?gy sdiv ?npy"
  have nz1: "nzones_x m1 = nzx" "nzones_y m1 = nzy"
    unfolding nzx_def nzy_def by (subst e, simp)+
  have gp': "muPermutation (?gx + 1) (?gy + 1) ?npx ?npy = Inr gperm"
    using gp by (simp only: keep)
  note w = muPermutation_widths [OF g nb gp']
  note offx = sdiv_exact [OF w(1) ne(1)] and offy = sdiv_exact [OF w(2) ne(2)]
  have nzx: "nzx = ?gx sdiv ?npx" unfolding nzx_def offx by (simp add: algebra_simps)
  have nzy: "nzy = ?gy sdiv ?npy" unfolding nzy_def offy by (simp add: algebra_simps)
  have f: "nzones_x m' = nzx" "nzones_y m' = nzy" "global_perm m' = gperm" "perm m' = lperm"
    by (simp_all add: m' nz1)
  have m1: "m1 = m\<lparr>my_color := color, proc_index_x := ?pix, proc_index_y := ?piy,
                   zone_x_offset := ?pix * nzx, nzones_x := nzx,
                   zone_y_offset := ?piy * nzy, nzones_y := nzy,
                   num_zones := nzx * nzy, num_points_x := nzx + 1, num_points_y := nzy + 1\<rparr>"
  proof -
    have x: "(?pix + 1) * (?gx sdiv ?npx) - ?pix * (?gx sdiv ?npx) = ?gx sdiv ?npx"
      and y: "(?piy + 1) * (?gy sdiv ?npy) - ?piy * (?gy sdiv ?npy) = ?gy sdiv ?npy"
      by (simp_all add: algebra_simps)
    show ?thesis
      by (subst e, simp only: nz1 offx offy nzx nzy x y)
  qed
  show "m' = m\<lparr>my_color := color,
                 proc_index_x := color smod num_proc_x m, proc_index_y := color sdiv num_proc_x m,
                 zone_x_offset := color smod num_proc_x m * nzones_x m', nzones_x := nzones_x m',
                 zone_y_offset := color sdiv num_proc_x m * nzones_y m', nzones_y := nzones_y m',
                 num_zones := nzones_x m' * nzones_y m',
                 num_points_x := nzones_x m' + 1, num_points_y := nzones_y m' + 1,
                 global_perm := global_perm m', perm := perm m'\<rparr>"
    unfolding f by (subst m', subst m1, simp)
  show "global_nzones_x m = nzones_x m' * num_proc_x m"
    and "global_nzones_y m = nzones_y m' * num_proc_y m"
    and "1 \<le> nzones_x m'" and "1 \<le> nzones_y m'"
    unfolding f nzx nzy using w by simp_all
  show "muPermutation (global_nzones_x m + 1) (global_nzones_y m + 1) (num_proc_x m) (num_proc_y m)
           = Inr (global_perm m')"
    and "muPermutation (nzones_x m' + 1) (nzones_y m' + 1) 1 1 = Inr (perm m')"
    unfolding f using gp' lp by (simp_all add: pts nz1)
qed

text \<open>
  When \<^verbatim>\<open>calcLocalConstants\<close> returns, \<open>rank_state\<close> returns the same object up to the two
  inverse vectors.
\<close>

lemma calcLocalConstants_rank_state:
  assumes "calcLocalConstants m color = Inr r'"
  shows "\<exists>r. rank_state m color = Inr r
           \<and> r' = r\<lparr>global_deperm := global_deperm r', deperm := deperm r'\<rparr>"
proof -
  from assms obtain m1 gx gy gperm gdeperm lperm ldeperm where
    e: "local_extents m color = Inr m1" "int32 (global_nzones_x m1 + 1) = Inr gx"
      "int32 (global_nzones_y m1 + 1) = Inr gy"
      "muPermutation gx gy (num_proc_x m1) (num_proc_y m1) = Inr gperm"
      "muPermutation (num_points_x m1) (num_points_y m1) 1 1 = Inr lperm"
    and r': "r' = m1\<lparr>global_perm := gperm, global_deperm := gdeperm,
                      perm := lperm, deperm := ldeperm\<rparr>"
    unfolding calcLocalConstants_def by (auto simp add: rbind_eq_Inr)
  have "rank_state m color = Inr (m1\<lparr>global_perm := gperm, perm := lperm\<rparr>)"
    unfolding rank_state_def by (simp add: e)
  moreover have "r' = (m1\<lparr>global_perm := gperm, perm := lperm\<rparr>)
      \<lparr>global_deperm := global_deperm r', deperm := deperm r'\<rparr>"
    by (simp add: r')
  ultimately show ?thesis by blast
qed


subsection \<open>The inverse vectors\<close>

lemma muPermutation_not_empty:
  assumes "muPermutation npx npy nbx nby = Inr prm"
  shows "prm \<noteq> []"
proof -
  define p0 :: "int list" where "p0 = replicate (nat (npx * npy)) 0"
  from muPermutation_cells [OF assms] obtain wx wy where
    cells: "forM (mu_cells npx wx wy nbx nby) assign (p0, 0) = Inr (prm, npx * npy)"
    unfolding p0_def by auto
  have "0 \<in> set (mu_cells npx wx wy nbx nby)"
    by (simp add: mu_cells_def)
  with assign_run(3) [OF cells] have "0 < int (length p0)"
    by blast
  with assign_run(2) [OF cells] show ?thesis by auto
qed

lemma invert_empty: "invert (k # prm) [] = Inl UndefinedBehaviour"
proof -
  have "[0..int (length (k # prm)) - 1] = 0 # [1..int (length prm)]"
    by (simp add: upto_rec1)
  moreover have "vput [] k (0::int) = Inl UndefinedBehaviour"
    by (simp add: vput_def)
  ultimately show ?thesis
    by (simp add: invert_def vget_def rbind_def)
qed

text \<open>
  Claim C2 says that after \<^verbatim>\<open>calcLocalConstants\<close> the stored inverse satisfies
  \<open>perm[deperm[i]] = i\<close> and \<open>deperm[perm[i]] = i\<close>, and likewise \<^verbatim>\<open>global_deperm\<close>. The source
  prepares the inverse vectors with \<^verbatim>\<open>reserve\<close>, which leaves their size at 0, and then writes
  \<^verbatim>\<open>global_deperm[global_perm[i]] = i\<close> and \<^verbatim>\<open>deperm[perm[i]] = i\<close>: every one of these writes
  is a subscript out of range. The inversion loop fails at its first iteration on an empty
  vector; \<^verbatim>\<open>calcLocalConstants\<close> does not return normally from any state in which
  \<^verbatim>\<open>global_deperm\<close> is empty, as it is in the constructor; and for rank 3 of a rect mesh of
  4 by 4 zones on a 2 by 2 processor grid the run ends in undefined behaviour.
\<close>

theorem calcLocalConstants_inverse_out_of_range:
  "invert (k # prm) (reserve n []) = Inl UndefinedBehaviour
   \<and> isl (calcLocalConstants (m\<lparr>global_deperm := []\<rparr>) color)
   \<and> calcLocalConstants ((members ''rect'' 4 4 1 1 4 3)\<lparr>num_proc_x := 2, num_proc_y := 2\<rparr>) 3
       = Inl UndefinedBehaviour"
proof -
  have first: "invert (k # prm) (reserve n []) = Inl UndefinedBehaviour" for k prm n
    by (simp add: reserve_def invert_empty)
  have "isl (calcLocalConstants (m\<lparr>global_deperm := []\<rparr>) color)"
  proof (cases "calcLocalConstants (m\<lparr>global_deperm := []\<rparr>) color")
    case (Inl e)
    then show ?thesis by simp
  next
    case (Inr r)
    then obtain gx gy npx npy gperm gdeperm where
      gp: "muPermutation gx gy npx npy = Inr gperm"
      and gd: "invert gperm (reserve (length gperm) []) = Inr gdeperm"
      unfolding calcLocalConstants_def local_extents_def
      by (auto simp add: rbind_eq_Inr)
    from muPermutation_not_empty [OF gp] obtain k prm where "gperm = k # prm"
      by (cases gperm) simp_all
    with gd first [of k prm] show ?thesis by simp
  qed
  moreover have "calcLocalConstants
      ((members ''rect'' 4 4 1 1 4 3)\<lparr>num_proc_x := 2, num_proc_y := 2\<rparr>) 3 = Inl UndefinedBehaviour"
    by code_simp
  ultimately show ?thesis using first by simp
qed

subsection \<open>The edge loops of the rect enumerator\<close>

lemma upto_from_as_upt: "0 \<le> a \<Longrightarrow> [a..int n - 1] = map int [nat a..<n]"
proof (induction n)
  case 0
  then show ?case by simp
next
  case (Suc n)
  show ?case
  proof (cases "a \<le> int n")
    case True
    then have "[a..int (Suc n) - 1] = [a..int n - 1] @ [int n]"
      using upto_rec2 [of a "int n"] by simp
    with Suc True show ?thesis by (simp add: nat_le_iff)
  next
    case False
    with Suc.prems show ?thesis by (simp add: not_le nat_less_iff)
  qed
qed

lemma rect_walk_steps:
  assumes rng: "\<And>k. (if skip then 1 else 0) \<le> k \<Longrightarrow> k < int n
                  \<Longrightarrow> 0 \<le> p0 + k * d \<and> p0 + k * d < int (length prm)"
  shows "forM (map int [0..<n]) (rect_walk prm skip d) (p0, pts)
       = Inr (p0 + int n * d,
              pts @ map (\<lambda>p. prm ! nat p) (map (\<lambda>k. p0 + k * d) [(if skip then 1 else 0)..int n - 1]))"
  using rng
proof (induction n)
  case 0
  then show ?case by simp
next
  case (Suc n)
  have before: "forM (map int [0..<n]) (rect_walk prm skip d) (p0, pts)
       = Inr (p0 + int n * d,
              pts @ map (\<lambda>p. prm ! nat p) (map (\<lambda>k. p0 + k * d) [(if skip then 1 else 0)..int n - 1]))"
    by (rule Suc.IH) (use Suc.prems in simp)
  define P where "P = p0 + int n * d"
  define Q where "Q = pts @ map (\<lambda>p. prm ! nat p)
      (map (\<lambda>k. p0 + k * d) [(if skip then 1 else 0)..int n - 1])"
  have run: "forM (map int [0..<Suc n]) (rect_walk prm skip d) (p0, pts)
      = rect_walk prm skip d (int n) (P, Q)"
    by (simp add: forM_append before [folded P_def Q_def] split: sum.splits)
  have fin: "p0 + int (Suc n) * d = P + d"
    by (simp add: P_def algebra_simps)
  show ?case
  proof (cases "int n = 0 \<and> skip")
    case True
    then have "rect_walk prm skip d (int n) (P, Q) = Inr (P + d, Q)"
      by (simp add: rect_walk_def)
    moreover from True have "[(if skip then 1 else 0)..int (Suc n) - 1] = []"
      "[(if skip then 1 else 0)..int n - 1] = []"
      by simp_all
    ultimately show ?thesis
      unfolding run fin by (simp add: Q_def)
  next
    case False
    then have lo: "(if skip then 1 else 0) \<le> int n" by auto
    from Suc.prems [OF lo] have "0 \<le> P" "P < int (length prm)"
      by (simp_all add: P_def)
    with False have "rect_walk prm skip d (int n) (P, Q) = Inr (P + d, Q @ [prm ! nat P])"
      by (auto simp add: rect_walk_def vget_def)
    moreover have "[(if skip then 1 else 0)..int (Suc n) - 1]
        = [(if skip then 1 else 0)..int n - 1] @ [int n]"
      using upto_rec2 [OF lo] by simp
    ultimately show ?thesis
      unfolding run fin by (simp add: Q_def P_def)
  qed
qed

lemma rect_walk_loop:
  assumes rng: "\<And>k. (if skip then 1 else 0) \<le> k \<Longrightarrow> k < n
                  \<Longrightarrow> 0 \<le> p0 + k * d \<and> p0 + k * d < int (length prm)"
    and n: "0 \<le> n"
  shows "forM [0..n - 1] (rect_walk prm skip d) (p0, pts)
       = Inr (p0 + n * d, pts @ map (\<lambda>p. prm ! nat p) (walk_indices skip p0 d n))"
proof -
  define n' where "n' = nat n"
  have n': "n = int n'" using n by (simp add: n'_def)
  show ?thesis
    unfolding n' walk_indices_def upto_as_upt
    by (rule rect_walk_steps) (use rng n' in simp)
qed

text \<open>Raster indices of a grid with \<open>a\<close> columns and \<open>b\<close> rows.\<close>

lemma raster_in_range:
  fixes a b i j :: int
  assumes "0 \<le> i" "i < a" "0 \<le> j" "j < b"
  shows "0 \<le> j * a + i" and "j * a + i < a * b"
proof -
  have a: "0 < a" using assms by simp
  show "0 \<le> j * a + i" using assms a by simp
  have "j + 1 \<le> b" using assms by simp
  then have "(j + 1) * a \<le> b * a" using a by (intro mult_right_mono) simp_all
  then show "j * a + i < a * b" using assms by (simp add: algebra_simps)
qed

lemma rect_walks:
  assumes lp: "int (length (perm r)) = num_points_x r * num_points_y r"
    and px: "1 \<le> num_points_x r" and py: "1 \<le> num_points_y r"
  shows "forM [0..num_points_x r - 1] (rect_walk (perm r) s 1) (0, pts)
         = Inr (0 + num_points_x r * 1,
                pts @ map (\<lambda>p. perm r ! nat p) (walk_indices s 0 1 (num_points_x r)))"
    and "forM [0..num_points_y r - 1] (rect_walk (perm r) s (num_points_x r)) (0, pts)
         = Inr (0 + num_points_y r * num_points_x r,
                pts @ map (\<lambda>p. perm r ! nat p) (walk_indices s 0 (num_points_x r) (num_points_y r)))"
    and "forM [0..num_points_y r - 1] (rect_walk (perm r) s (num_points_x r)) (num_points_x r - 1, pts)
         = Inr (num_points_x r - 1 + num_points_y r * num_points_x r,
                pts @ map (\<lambda>p. perm r ! nat p)
                        (walk_indices s (num_points_x r - 1) (num_points_x r) (num_points_y r)))"
    and "forM [0..num_points_x r - 1] (rect_walk (perm r) s 1)
           ((num_points_y r - 1) * num_points_x r, pts)
         = Inr ((num_points_y r - 1) * num_points_x r + num_points_x r * 1,
                pts @ map (\<lambda>p. perm r ! nat p)
                        (walk_indices s ((num_points_y r - 1) * num_points_x r) 1 (num_points_x r)))"
proof -
  let ?a = "num_points_x r" and ?b = "num_points_y r"
  have cell: "0 \<le> j * ?a + i \<and> j * ?a + i < int (length (perm r))"
    if "0 \<le> i" "i < ?a" "0 \<le> j" "j < ?b" for i j
    using raster_in_range [OF that] lp by simp
  have nn: "0 \<le> ?a" "0 \<le> ?b" using px py by simp_all
  show "forM [0..?a - 1] (rect_walk (perm r) s 1) (0, pts)
         = Inr (0 + ?a * 1, pts @ map (\<lambda>p. perm r ! nat p) (walk_indices s 0 1 ?a))"
  proof (rule rect_walk_loop [OF _ nn(1)])
    fix k :: int
    assume "(if s then 1 else 0) \<le> k" "k < ?a"
    then have "0 \<le> k" "k < ?a" by (auto split: if_splits)
    from cell [OF this, of 0] py show "0 \<le> 0 + k * 1 \<and> 0 + k * 1 < int (length (perm r))"
      by simp
  qed
  show "forM [0..?b - 1] (rect_walk (perm r) s ?a) (0, pts)
         = Inr (0 + ?b * ?a, pts @ map (\<lambda>p. perm r ! nat p) (walk_indices s 0 ?a ?b))"
  proof (rule rect_walk_loop [OF _ nn(2)])
    fix k :: int
    assume "(if s then 1 else 0) \<le> k" "k < ?b"
    then have "0 \<le> k" "k < ?b" by (auto split: if_splits)
    from cell [OF _ _ this, of 0] px show "0 \<le> 0 + k * ?a \<and> 0 + k * ?a < int (length (perm r))"
      by simp
  qed
  show "forM [0..?b - 1] (rect_walk (perm r) s ?a) (?a - 1, pts)
         = Inr (?a - 1 + ?b * ?a, pts @ map (\<lambda>p. perm r ! nat p) (walk_indices s (?a - 1) ?a ?b))"
  proof (rule rect_walk_loop [OF _ nn(2)])
    fix k :: int
    assume "(if s then 1 else 0) \<le> k" "k < ?b"
    then have "0 \<le> k" "k < ?b" by (auto split: if_splits)
    from cell [OF _ _ this, of "?a - 1"] px
    show "0 \<le> ?a - 1 + k * ?a \<and> ?a - 1 + k * ?a < int (length (perm r))"
      by (simp add: add.commute)
  qed
  show "forM [0..?a - 1] (rect_walk (perm r) s 1) ((?b - 1) * ?a, pts)
         = Inr ((?b - 1) * ?a + ?a * 1,
                pts @ map (\<lambda>p. perm r ! nat p) (walk_indices s ((?b - 1) * ?a) 1 ?a))"
  proof (rule rect_walk_loop [OF _ nn(1)])
    fix k :: int
    assume "(if s then 1 else 0) \<le> k" "k < ?a"
    then have "0 \<le> k" "k < ?a" by (auto split: if_splits)
    from cell [OF this, of "?b - 1"] py
    show "0 \<le> (?b - 1) * ?a + k * 1 \<and> (?b - 1) * ?a + k * 1 < int (length (perm r))"
      by simp
  qed
qed

text \<open>The master blocks succeed and leave the slave vectors alone; they only append.\<close>

lemma rect_master_tail:
  assumes lp: "int (length (perm r)) = num_points_x r * num_points_y r"
    and px: "1 \<le> num_points_x r" and py: "1 \<le> num_points_y r"
  shows "\<exists>h' X Y Z. rbind (rect_master_above r h) (rect_master_corner r) = Inr h'
           \<and> slaved_points h' = slaved_points h \<and> master_colors h' = master_colors h
           \<and> slaved_points_counts h' = slaved_points_counts h
           \<and> master_points h' = master_points h @ X
           \<and> master_points_counts h' = master_points_counts h @ Y
           \<and> slave_colors h' = slave_colors h @ Z"
proof -
  have "0 \<le> num_points_x r * num_points_y r - 1"
    "num_points_x r * num_points_y r - 1 < int (length (perm r))"
    using px py lp by (simp_all add: mult_le_cancel_left1 pos_add_strict less_1_mult)
  then have last: "vget (perm r) (num_points_x r * num_points_y r - 1)
      = Inr (perm r ! nat (num_points_x r * num_points_y r - 1))"
    by (simp add: vget_def)
  show ?thesis
    by (simp add: rect_master_above_def rect_master_corner_def rect_walks(4) [OF lp px py] last)
qed

lemma rect_masters:
  assumes lp: "int (length (perm r)) = num_points_x r * num_points_y r"
    and px: "1 \<le> num_points_x r" and py: "1 \<le> num_points_y r"
  shows "\<exists>h'. rbind (rect_master_right r h)
                (\<lambda>h. rbind (rect_master_above r h) (rect_master_corner r)) = Inr h'
           \<and> slaved_points h' = slaved_points h \<and> master_colors h' = master_colors h
           \<and> slaved_points_counts h' = slaved_points_counts h"
proof -
  have "\<exists>h1. rect_master_right r h = Inr h1 \<and> slaved_points h1 = slaved_points h
      \<and> master_colors h1 = master_colors h \<and> slaved_points_counts h1 = slaved_points_counts h"
    by (simp add: rect_master_right_def rect_walks(3) [OF lp px py])
  then obtain h1 where h1: "rect_master_right r h = Inr h1" "slaved_points h1 = slaved_points h"
    "master_colors h1 = master_colors h" "slaved_points_counts h1 = slaved_points_counts h"
    by blast
  from rect_master_tail [OF lp px py, of h1] h1 show ?thesis
    by auto
qed

subsection \<open>Ranks\<close>

lemma muPermutation_first:
  assumes g: "1 \<le> gx" "1 \<le> gy" and nb: "1 \<le> nbx" "1 \<le> nby"
    and run: "muPermutation (gx + 1) (gy + 1) nbx nby = Inr prm"
  shows "prm ! 0 = 0"
proof -
  define wx wy where "wx = gx sdiv nbx" and "wy = gy sdiv nby"
  note w = muPermutation_widths [OF g nb run, folded wx_def wy_def]
  from run w(1,2) have run': "muPermutation (wx * nbx + 1) (wy * nby + 1) nbx nby = Inr prm"
    by simp
  have "0 < nat ((wx * nbx + 1) * (wy * nby + 1))"
    using w g by simp
  with muPermutation_good(2) [OF w(3,4) nb run']
  have "prm ! nat (mu_cells (wx * nbx + 1) wx wy nbx nby ! 0) = int 0"
    by blast
  then show ?thesis by (simp add: mu_cells_def)
qed

lemma rank_facts:
  assumes g: "1 \<le> global_nzones_x m" "1 \<le> global_nzones_y m"
    and nb: "1 \<le> num_proc_x m" "1 \<le> num_proc_y m"
    and run: "rank_state m color = Inr r"
  shows "int (length (perm r)) = num_points_x r * num_points_y r"
    and "distinct (perm r)" and "perm r ! 0 = 0"
    and "num_points_x r = nzones_x r + 1" and "num_points_y r = nzones_y r + 1"
    and "1 \<le> nzones_x r" and "1 \<le> nzones_y r"
    and "proc_index_x r = color smod num_proc_x m" and "proc_index_y r = color sdiv num_proc_x m"
    and "zone_x_offset r = proc_index_x r * nzones_x r"
    and "zone_y_offset r = proc_index_y r * nzones_y r"
    and "global_nzones_x r = nzones_x r * num_proc_x r"
    and "global_nzones_y r = nzones_y r * num_proc_y r"
    and "num_proc_x r = num_proc_x m" and "num_proc_y r = num_proc_y m"
    and "num_subregions r = num_subregions m" and "meshtype r = meshtype m"
    and "my_color r = color"
proof -
  note c = rank_state_Inr [OF g nb run]
  show f: "num_points_x r = nzones_x r + 1" "num_points_y r = nzones_y r + 1"
    "proc_index_x r = color smod num_proc_x m" "proc_index_y r = color sdiv num_proc_x m"
    "num_proc_x r = num_proc_x m" "num_proc_y r = num_proc_y m"
    "num_subregions r = num_subregions m" "meshtype r = meshtype m" "my_color r = color"
    by (subst c(1), simp)+
  have z: "zone_x_offset r = color smod num_proc_x m * nzones_x r"
    "zone_y_offset r = color sdiv num_proc_x m * nzones_y r"
    "global_nzones_x r = global_nzones_x m" "global_nzones_y r = global_nzones_y m"
    by (subst c(1), simp)+
  show "zone_x_offset r = proc_index_x r * nzones_x r"
    "zone_y_offset r = proc_index_y r * nzones_y r"
    "global_nzones_x r = nzones_x r * num_proc_x r"
    "global_nzones_y r = nzones_y r * num_proc_y r"
    using z c(2,3) f by simp_all
  show "1 \<le> nzones_x r" "1 \<le> nzones_y r" by (rule c(4), rule c(5))
  have one: "(1::int) \<le> 1" by simp
  from muPermutation_bijection [OF c(4,5) one one c(7)] muPermutation_first [OF c(4,5) one one c(7)]
  show "int (length (perm r)) = num_points_x r * num_points_y r"
    and "distinct (perm r)" and "perm r ! 0 = 0"
    unfolding f by simp_all
qed
subsection \<open>Corner deduplication, rect and pie\<close>

lemma corner_walks_distinct:
  fixes a b :: int
  assumes a: "1 \<le> a" and b: "1 \<le> b"
  shows "distinct (0 # walk_indices True 0 1 a @ walk_indices True 0 a b)"
    and "set (0 # walk_indices True 0 1 a @ walk_indices True 0 a b) \<subseteq> {0..<a * b}"
proof -
  have inj: "inj_on (\<lambda>k. k * a) (set [1..b - 1])"
    using a by (intro inj_onI) simp
  have "distinct (map (\<lambda>k. k * a) [1..b - 1])"
    using inj by (simp add: distinct_map)
  moreover have lower: "a \<le> k * a" if "1 \<le> k" for k
    using mult_right_mono [of 1 k a] that a by simp
  ultimately show "distinct (0 # walk_indices True 0 1 a @ walk_indices True 0 a b)"
    using a by (auto simp add: walk_indices_def distinct_map dest: lower)
  have "k * a < a * b" if "1 \<le> k" "k \<le> b - 1" for k
    using raster_in_range(2) [of 0 a k b] that a by simp
  moreover have "k < a * b" if "1 \<le> k" "k \<le> a - 1" for k
    using raster_in_range(2) [of k a 0 b] that b by simp
  moreover have "0 < a * b" using a b by simp
  ultimately show "set (0 # walk_indices True 0 1 a @ walk_indices True 0 a b) \<subseteq> {0..<a * b}"
    using a lower by (auto simp add: walk_indices_def intro: order_trans [OF _ lower])
qed

lemma distinct_map_nth:
  fixes prm :: "int list"
  assumes "distinct prm" and "distinct ps" and "set ps \<subseteq> {0..<int (length prm)}"
  shows "distinct (map (\<lambda>p. prm ! nat p) ps)"
proof -
  have "inj_on (\<lambda>p. prm ! nat p) (set ps)"
  proof (rule inj_onI)
    fix p q
    assume p: "p \<in> set ps" and q: "q \<in> set ps" and eq: "prm ! nat p = prm ! nat q"
    from p q assms(3) have "p \<in> {0..<int (length prm)}" "q \<in> {0..<int (length prm)}"
      by blast+
    then have "nat p < length prm" "nat q < length prm" "0 \<le> p" "0 \<le> q"
      by (simp_all add: nat_less_iff)
    with eq assms(1) show "p = q" by (simp add: nth_eq_iff_index_eq)
  qed
  with assms(2) show ?thesis by (simp add: distinct_map)
qed

lemma segment_first: "nat c \<le> length xs \<Longrightarrow> segment (c # cs) (xs @ ys) 0 = take (nat c) xs"
  by (simp add: segment_def)

lemma length_walk_indices: "length (walk_indices True p0 d n) = nat (n - 1)"
  by (simp add: walk_indices_def)

lemma rect_corner_dedup:
  assumes lp: "int (length (perm r)) = num_points_x r * num_points_y r"
    and px: "1 \<le> num_points_x r" and py: "1 \<le> num_points_y r"
    and multi: "num_subregions r \<noteq> 1"
    and inner: "0 < proc_index_x r" "0 < proc_index_y r"
  shows "\<exists>h. generateHaloPointsRect r no_halo = Inr h
           \<and> master_colors h = [my_color r - num_proc_x r - 1, my_color r - num_proc_x r, my_color r - 1]
           \<and> slaved_points_counts h = [1, num_points_x r - 1, num_points_y r - 1]
           \<and> slaved_points h = map (\<lambda>p. perm r ! nat p)
                 (0 # walk_indices True 0 1 (num_points_x r)
                    @ walk_indices True 0 (num_points_x r) (num_points_y r))"
proof -
  let ?f = "\<lambda>p. perm r ! nat p"
  have "0 < num_points_x r * num_points_y r" using px py by simp
  then have first: "vget (perm r) 0 = Inr (perm r ! 0)"
    using lp by (simp add: vget_def)
  define h1 where "h1 = no_halo\<lparr>slaved_points := [perm r ! 0],
      master_colors := [my_color r - num_proc_x r - 1], slaved_points_counts := [1]\<rparr>"
  define h2 where "h2 = h1\<lparr>slaved_points := perm r ! 0 # map ?f (walk_indices True 0 1 (num_points_x r)),
      master_colors := [my_color r - num_proc_x r - 1, my_color r - num_proc_x r],
      slaved_points_counts := [1, num_points_x r - 1]\<rparr>"
  define h3 where "h3 = h2\<lparr>slaved_points := perm r ! 0 # map ?f (walk_indices True 0 1 (num_points_x r))
        @ map ?f (walk_indices True 0 (num_points_x r) (num_points_y r)),
      master_colors := [my_color r - num_proc_x r - 1, my_color r - num_proc_x r, my_color r - 1],
      slaved_points_counts := [1, num_points_x r - 1, num_points_y r - 1]\<rparr>"
  have s1: "rect_slave_corner r no_halo = Inr h1"
    using inner by (simp add: rect_slave_corner_def first h1_def no_halo_def)
  have s2: "rect_slave_below r h1 = Inr h2"
    using inner px
    by (simp add: rect_slave_below_def rect_walks(1) [OF lp px py] h1_def h2_def no_halo_def
        length_walk_indices)
  have s3: "rect_slave_left r h2 = Inr h3"
    using inner px py
    by (simp add: rect_slave_left_def rect_walks(2) [OF lp px py] h1_def h2_def h3_def no_halo_def
        length_walk_indices)
  from rect_masters [OF lp px py, of h3] obtain h where
    h: "rbind (rect_master_right r h3)
          (\<lambda>h. rbind (rect_master_above r h) (rect_master_corner r)) = Inr h"
      "slaved_points h = slaved_points h3" "master_colors h = master_colors h3"
      "slaved_points_counts h = slaved_points_counts h3"
    by blast
  have "generateHaloPointsRect r no_halo = Inr h"
    using multi px py by (simp add: generateHaloPointsRect_def reserving_def s1 s2 s3 h(1))
  with h(2-4) show ?thesis
    by (simp add: h3_def)
qed

lemma pie_walk_steps:
  "fold (pie_walk skip) (map int [0..<n]) (p0, pts)
     = (p0 + int n, pts @ map (\<lambda>k. p0 + k * 1) [(if skip then 1 else 0)..int n - 1])"
proof (induction n)
  case 0
  then show ?case by simp
next
  case (Suc n)
  define Q where "Q = pts @ map (\<lambda>k. p0 + k * 1) [(if skip then 1 else 0)..int n - 1]"
  have run: "fold (pie_walk skip) (map int [0..<Suc n]) (p0, pts)
      = pie_walk skip (int n) (p0 + int n, Q)"
    by (simp add: Suc Q_def)
  show ?case
  proof (cases "int n = 0 \<and> skip")
    case True
    then have "pie_walk skip (int n) (p0 + int n, Q) = (p0 + int n + 1, Q)"
      by (simp add: pie_walk_def)
    moreover from True have "[(if skip then 1 else 0)..int (Suc n) - 1] = []"
      "[(if skip then 1 else 0)..int n - 1] = []"
      by simp_all
    ultimately show ?thesis unfolding run by (simp add: Q_def)
  next
    case False
    then have lo: "(if skip then 1 else 0) \<le> int n" by auto
    have "[(if skip then 1 else 0)..int (Suc n) - 1]
        = [(if skip then 1 else 0)..int n - 1] @ [int n]"
      using upto_rec2 [OF lo] by simp
    moreover from False have "pie_walk skip (int n) (p0 + int n, Q)
        = (p0 + int n + 1, Q @ [p0 + int n])"
      by (auto simp add: pie_walk_def)
    ultimately show ?thesis unfolding run by (simp add: Q_def)
  qed
qed

lemma pie_walk_loop:
  assumes "0 \<le> n"
  shows "fold (pie_walk skip) [0..n - 1] (p0, pts) = (p0 + n, pts @ walk_indices skip p0 1 n)"
proof -
  define n' where "n' = nat n"
  have n': "n = int n'" using assms by (simp add: n'_def)
  show ?thesis
    unfolding n' walk_indices_def upto_as_upt by (rule pie_walk_steps)
qed

lemma pie_column_steps:
  "fold (pie_column d) (map int [1..<Suc n]) (p0, pts)
     = (p0 + int n * d, pts @ map (\<lambda>k. p0 - d + k * d) [1..int n])"
proof (induction n)
  case 0
  then show ?case by simp
next
  case (Suc n)
  have "[1..int (Suc n)] = [1..int n] @ [int (Suc n)]"
    using upto_rec2 [of 1 "int (Suc n)"] by simp
  with Suc show ?case
    by (simp add: pie_column_def algebra_simps)
qed

lemma pie_column_loop:
  assumes "1 \<le> n"
  shows "fold (pie_column d) [1..n - 1] (p0, pts)
       = (p0 + (n - 1) * d, pts @ walk_indices True (p0 - d) d n)"
proof -
  define n' where "n' = nat (n - 1)"
  have n': "n = int (Suc n')" using assms by (simp add: n'_def)
  have "[1..n - 1] = map int [1..<Suc n']"
    using upto_from_as_upt [of 1 "Suc n'"] by (simp add: n')
  then show ?thesis
    using pie_column_steps [of d n' p0 pts] by (simp add: n' walk_indices_def)
qed

lemma pie_masters_frame:
  "slaved_points (pie_master_corner r (pie_master_above r (pie_master_right r h))) = slaved_points h
   \<and> master_colors (pie_master_corner r (pie_master_above r (pie_master_right r h))) = master_colors h
   \<and> slaved_points_counts (pie_master_corner r (pie_master_above r (pie_master_right r h)))
       = slaved_points_counts h"
proof -
  let ?I = "\<lambda>g. slaved_points g = slaved_points h \<and> master_colors g = master_colors h
      \<and> slaved_points_counts g = slaved_points_counts h"
  have push: "?I (fold (\<lambda>slave_proc g.
        g\<lparr>master_points := master_points g @ [0], slave_colors := slave_colors g @ [slave_proc],
          master_points_counts := master_points_counts g @ [1]\<rparr>) xs g0)" if "?I g0" for xs g0
    by (rule fold_preserves [where I = ?I, OF that]) simp
  have r: "?I (pie_master_right r h)"
    unfolding pie_master_right_def Let_def
    by (auto split: prod.splits intro!: push)
  have a: "?I (pie_master_above r g)" if "?I g" for g
    using that by (simp add: pie_master_above_def Let_def split: prod.splits)
  have c: "?I (pie_master_corner r g)" if "?I g" for g
    using that by (simp add: pie_master_corner_def Let_def)
  from c [OF a [OF r]] show ?thesis .
qed

lemma pie_corner_dedup:
  assumes px: "1 \<le> num_points_x r" and py: "1 \<le> num_points_y r"
    and multi: "num_subregions r \<noteq> 1"
    and inner: "0 < proc_index_x r" "0 < proc_index_y r"
  shows "\<exists>h. generateHaloPointsPie r no_halo = Inr h
           \<and> master_colors h = [my_color r - num_proc_x r - 1, my_color r - num_proc_x r, my_color r - 1]
           \<and> slaved_points_counts h = [1, num_points_x r - 1, num_points_y r - 1]
           \<and> slaved_points h = 0 # walk_indices True 0 1 (num_points_x r)
                                   @ walk_indices True 0 (num_points_x r) (num_points_y r)"
proof -
  define h3 where "h3 = pie_slave_left r (pie_slave_below r (pie_slave_corner r no_halo))"
  have nn: "0 \<le> num_points_x r" using px by simp
  have s: "master_colors h3 = [my_color r - num_proc_x r - 1, my_color r - num_proc_x r, my_color r - 1]"
    "slaved_points_counts h3 = [1, num_points_x r - 1, num_points_y r - 1]"
    "slaved_points h3 = 0 # walk_indices True 0 1 (num_points_x r)
                            @ walk_indices True 0 (num_points_x r) (num_points_y r)"
    using inner px py
    by (simp_all add: h3_def pie_slave_corner_def pie_slave_below_def pie_slave_left_def Let_def
        pie_walk_loop [OF nn] pie_column_loop [OF py] no_halo_def length_walk_indices)
  have "generateHaloPointsPie r no_halo
      = Inr (pie_master_corner r (pie_master_above r (pie_master_right r h3)))"
    using multi px py by (simp add: generateHaloPointsPie_def reserving_def h3_def)
  with pie_masters_frame [of r h3] s show ?thesis
    by simp
qed

subsection \<open>The row bases of a hex mesh\<close>

lemma hex_base_Suc: "0 \<le> j \<Longrightarrow> hex_base m (j + 1) = hex_base m j + hex_row_npoints m j"
  using upto_rec2 [of 0 j] by (simp add: hex_base_def)

lemma hex_base_0: "hex_base m 0 = 0"
  by (simp add: hex_base_def)

lemma hex_count_rows_eq:
  assumes "0 \<le> num_points_y m"
  shows "hex_count_rows m
       = Inr (map (hex_base m) [0..num_points_y m - 1], hex_base m (num_points_y m))"
proof -
  define N where "N = nat (num_points_y m)"
  define body where "body = (\<lambda>j (pbase, np).
      (pbase[nat j := np], fold (\<lambda>i np. np + hex_npoints m i j) [0..num_points_x m - 1] np))"
  have inner: "fold (\<lambda>i np. np + f i) xs np = np + sum_list (map f xs)"
    for f :: "int \<Rightarrow> int" and xs np
    by (induction xs arbitrary: np) simp_all
  have step: "body j (pbase, np) = (pbase[nat j := np], np + hex_row_npoints m j)" for j pbase np
    by (simp add: body_def inner hex_row_npoints_def)
  have "fold body (map int [0..<n]) (replicate N 0, 0)
      = (map (hex_base m) (map int [0..<n]) @ replicate (N - n) 0, hex_base m (int n))"
    if "n \<le> N" for n
    using that
  proof (induction n)
    case 0
    then show ?case by (simp add: hex_base_0)
  next
    case (Suc n)
    then have "N - n = Suc (N - Suc n)" by simp
    then have "(map (hex_base m) (map int [0..<n]) @ replicate (N - n) 0)[n := hex_base m (int n)]
        = map (hex_base m) (map int [0..<n]) @ hex_base m (int n) # replicate (N - Suc n) 0"
      by (simp add: list_update_append)
    with Suc show ?case
      using hex_base_Suc [of "int n" m] by (simp add: step add.commute)
  qed
  from this [of N] have "fold body [0..num_points_y m - 1] (replicate N 0, 0)
      = (map (hex_base m) [0..num_points_y m - 1], hex_base m (num_points_y m))"
    using assms upto_as_upt [of N] by (simp add: N_def)
  then show ?thesis
    using assms by (simp add: hex_count_rows_def body_def N_def)
qed

lemma hex_npoints_ge: "1 \<le> hex_npoints m i j"
  by (simp add: hex_npoints_def Let_def)

lemma hex_row_npoints_ge:
  assumes "0 \<le> num_points_x m"
  shows "num_points_x m \<le> hex_row_npoints m j"
proof -
  have "sum_list (map (\<lambda>i. 1) xs) \<le> sum_list (map (\<lambda>i. hex_npoints m i j) xs)" for xs :: "int list"
    by (intro sum_list_mono) (simp add: hex_npoints_ge)
  from this [of "[0..num_points_x m - 1]"] assms show ?thesis
    by (simp add: hex_row_npoints_def sum_list_triv)
qed

subsection \<open>The slave loops of the hex enumerator\<close>

lemma forM_pure_appends:
  assumes "\<And>x s. x \<in> set xs \<Longrightarrow> f x s = Inr (s @ g x)"
  shows "forM xs f s = Inr (s @ concat (map g xs))"
  using assms by (induction xs arbitrary: s) simp_all

lemma forM_total:
  assumes "\<And>x s. x \<in> set xs \<Longrightarrow> \<exists>s'. f x s = Inr s'"
  shows "\<exists>s'. forM xs f s = Inr s'"
  using assms
proof (induction xs arbitrary: s)
  case Nil
  then show ?case by simp
next
  case (Cons x xs)
  from Cons.prems [of x s] obtain t where t: "f x s = Inr t" by auto
  from Cons.IH [of t] Cons.prems obtain s' where "forM xs f t = Inr s'" by auto
  with t show ?case by simp
qed

lemma hex_below_steps:
  assumes pix: "proc_index_x m \<noteq> 0" and k: "int k < nzones_x m"
  shows "fold (hex_walk m 2) (map int [0..<Suc k]) (0, pts)
       = (2 * int k + 2, pts @ [2..2 * int k + 1])"
  using k
proof (induction k)
  case 0
  then show ?case using pix by (simp add: hex_walk_def)
next
  case (Suc k)
  then have before: "fold (hex_walk m 2) (map int [0..<Suc k]) (0, pts)
      = (2 * int k + 2, pts @ [2..2 * int k + 1])"
    by simp
  have run: "fold (hex_walk m 2) (map int [0..<Suc (Suc k)]) (0, pts)
      = hex_walk m 2 (int (Suc k)) (2 * int k + 2, pts @ [2..2 * int k + 1])"
    using before by simp
  have step: "hex_walk m 2 (int (Suc k)) (2 * int k + 2, q)
      = (2 * int k + 4, q @ [2 * int k + 2, 2 * int k + 3])" for q
    using Suc.prems by (simp add: hex_walk_def)
  have a: "[2..2 * int k + 3] = [2..2 * int k + 3 - 1] @ [2 * int k + 3]"
    by (rule upto_rec2) simp
  have b: "2 * int k + 3 - 1 = 2 * int k + 2" by simp
  have c: "[2..2 * int k + 2] = [2..2 * int k + 2 - 1] @ [2 * int k + 2]"
    by (rule upto_rec2) simp
  have d: "2 * int k + 2 - 1 = 2 * int k + 1" by simp
  have e: "2 * int (Suc k) + 1 = 2 * int k + 3" by simp
  have "[2..2 * int (Suc k) + 1] = [2..2 * int k + 1] @ [2 * int k + 2, 2 * int k + 3]"
    unfolding e a b c d by simp
  then show ?case unfolding run step by simp
qed

lemma hex_below_loop:
  assumes pix: "proc_index_x m \<noteq> 0" and nzx: "1 \<le> nzones_x m"
    and npx: "num_points_x m = nzones_x m + 1"
  shows "fold (hex_walk m 2) [0..num_points_x m - 1] (0, pts)
       = (2 * nzones_x m + 1, pts @ [2..2 * nzones_x m])"
proof -
  define k where "k = nat (nzones_x m - 1)"
  have k: "int k = nzones_x m - 1" using nzx by (simp add: k_def)
  have "[0..num_points_x m - 1] = map int [0..<Suc (Suc k)]"
    using upto_as_upt [of "Suc (Suc k)"] k npx by simp
  then have "fold (hex_walk m 2) [0..num_points_x m - 1] (0, pts)
      = hex_walk m 2 (nzones_x m) (fold (hex_walk m 2) (map int [0..<Suc k]) (0, pts))"
    using k by simp
  also have "\<dots> = hex_walk m 2 (nzones_x m) (2 * nzones_x m, pts @ [2..2 * nzones_x m - 1])"
    using hex_below_steps [OF pix, of k pts] k by simp
  also have "\<dots> = (2 * nzones_x m + 1, pts @ [2..2 * nzones_x m - 1] @ [2 * nzones_x m])"
    using nzx by (simp add: hex_walk_def)
  also have "[2..2 * nzones_x m - 1] @ [2 * nzones_x m] = [2..2 * nzones_x m]"
    by (rule upto_rec2 [symmetric]) (use nzx in simp)
  finally show ?thesis .
qed

lemma pbase_nth:
  assumes "0 \<le> j" "j < n"
  shows "vget (map (hex_base m) [0..n - 1]) j = Inr (hex_base m j)"
  using assms by (simp add: vget_def)

lemma hex_left_loop:
  assumes piy: "proc_index_y m \<noteq> 0" and nzy: "1 \<le> nzones_y m"
    and npy: "num_points_y m = nzones_y m + 1"
  shows "forM [0..num_points_y m - 1]
           (\<lambda>j pts. if j = 0 \<and> proc_index_y m \<noteq> 0 then Inr pts
                     else rbind (vget (map (hex_base m) [0..num_points_y m - 1]) j) (\<lambda>p.
                            Inr (if j = 0 \<or> j = nzones_y m then pts @ [p] else pts @ [p, p + 1])))
           pts
       = Inr (pts @ concat (map (\<lambda>j. if j = nzones_y m then [hex_base m j]
                                        else [hex_base m j, hex_base m j + 1])
                             [1..nzones_y m]))"
proof -
  let ?g = "\<lambda>j. if j = 0 then [] else if j = nzones_y m then [hex_base m j]
                   else [hex_base m j, hex_base m j + 1]"
  have "forM [0..num_points_y m - 1]
           (\<lambda>j pts. if j = 0 \<and> proc_index_y m \<noteq> 0 then Inr pts
                     else rbind (vget (map (hex_base m) [0..num_points_y m - 1]) j) (\<lambda>p.
                            Inr (if j = 0 \<or> j = nzones_y m then pts @ [p] else pts @ [p, p + 1])))
           pts
       = Inr (pts @ concat (map ?g [0..num_points_y m - 1]))"
  proof (rule forM_pure_appends)
    fix j s
    assume "j \<in> set [0..num_points_y m - 1]"
    then have j: "0 \<le> j" "j < num_points_y m" by simp_all
    show "(if j = 0 \<and> proc_index_y m \<noteq> 0 then Inr s
           else rbind (vget (map (hex_base m) [0..num_points_y m - 1]) j) (\<lambda>p.
                  Inr (if j = 0 \<or> j = nzones_y m then s @ [p] else s @ [p, p + 1])))
        = Inr (s @ ?g j)"
      using piy by (simp add: pbase_nth [OF j])
  qed
  moreover have "[0..num_points_y m - 1] = 0 # [1..nzones_y m]"
    using upto_rec1 [of 0 "nzones_y m"] nzy npy by simp
  moreover have "map ?g [1..nzones_y m]
      = map (\<lambda>j. if j = nzones_y m then [hex_base m j] else [hex_base m j, hex_base m j + 1])
          [1..nzones_y m]"
    by (rule map_cong) auto
  ultimately show ?thesis by simp
qed

lemma hex_masters:
  assumes nzy: "0 \<le> nzones_y m" and npy: "num_points_y m = nzones_y m + 1"
  shows "\<exists>h'. rbind (hex_master_right m (map (hex_base m) [0..num_points_y m - 1]) np h)
                (\<lambda>h. rbind (hex_master_above m (map (hex_base m) [0..num_points_y m - 1]) h)
                        (\<lambda>h. Inr (hex_master_corner m np h))) = Inr h'
           \<and> slaved_points h' = slaved_points h \<and> master_colors h' = master_colors h
           \<and> slaved_points_counts h' = slaved_points_counts h"
proof -
  let ?pbase = "map (hex_base m) [0..num_points_y m - 1]"
  have "\<exists>pts'. forM [0..num_points_y m - 1]
           (\<lambda>j pts. if j = 0 \<and> proc_index_y m \<noteq> 0 then Inr pts
                     else rbind (if j = nzones_y m then Inr np else vget ?pbase (j + 1)) (\<lambda>p.
                            Inr (if j = 0 \<or> j = nzones_y m then pts @ [p - 1]
                                 else pts @ [p - 2, p - 1])))
           (master_points h) = Inr pts'"
  proof (rule forM_total)
    fix j s
    assume "j \<in> set [0..num_points_y m - 1]"
    then have j: "0 \<le> j" "j \<le> nzones_y m" using npy by simp_all
    show "\<exists>s'. (if j = 0 \<and> proc_index_y m \<noteq> 0 then Inr s
           else rbind (if j = nzones_y m then Inr np else vget ?pbase (j + 1)) (\<lambda>p.
                  Inr (if j = 0 \<or> j = nzones_y m then s @ [p - 1] else s @ [p - 2, p - 1])))
        = Inr s'"
    proof (cases "j = nzones_y m")
      case True
      then show ?thesis by simp
    next
      case False
      with j npy have "0 \<le> j + 1" "j + 1 < num_points_y m" by simp_all
      from pbase_nth [OF this] show ?thesis by simp
    qed
  qed
  then have right: "\<exists>h1. hex_master_right m ?pbase np h = Inr h1
      \<and> slaved_points h1 = slaved_points h \<and> master_colors h1 = master_colors h
      \<and> slaved_points_counts h1 = slaved_points_counts h"
    by (auto simp add: hex_master_right_def)
  have "0 \<le> nzones_y m" "nzones_y m < num_points_y m" using nzy npy by simp_all
  note top = pbase_nth [OF this]
  have above: "\<exists>h2. hex_master_above m ?pbase g = Inr h2
      \<and> slaved_points h2 = slaved_points g \<and> master_colors h2 = master_colors g
      \<and> slaved_points_counts h2 = slaved_points_counts g" for g
    by (simp add: hex_master_above_def top split: prod.splits)
  have corner: "slaved_points (hex_master_corner m np g) = slaved_points g
      \<and> master_colors (hex_master_corner m np g) = master_colors g
      \<and> slaved_points_counts (hex_master_corner m np g) = slaved_points_counts g" for g
    by (simp add: hex_master_corner_def)
  from right obtain h1 where h1: "hex_master_right m ?pbase np h = Inr h1"
    "slaved_points h1 = slaved_points h" "master_colors h1 = master_colors h"
    "slaved_points_counts h1 = slaved_points_counts h"
    by blast
  from above [of h1] obtain h2 where h2: "hex_master_above m ?pbase h1 = Inr h2"
    "slaved_points h2 = slaved_points h1" "master_colors h2 = master_colors h1"
    "slaved_points_counts h2 = slaved_points_counts h1"
    by blast
  from h1 h2 corner [of h2] show ?thesis by simp
qed

subsection \<open>Corner deduplication, hex\<close>

lemma sorted_blocks:
  fixes B :: "int \<Rightarrow> int"
  assumes blk: "\<And>j. a \<le> j \<Longrightarrow> j \<le> b \<Longrightarrow> sorted_wrt (<) (g j) \<and> set (g j) \<subseteq> {B j..<B (j + 1)}"
    and mono: "\<And>j. a \<le> j \<Longrightarrow> j \<le> b \<Longrightarrow> B j \<le> B (j + 1)"
  shows "sorted_wrt (<) (concat (map g [a..b])) \<and> set (concat (map g [a..b])) \<subseteq> {B a..<B (b + 1)}
       \<and> (a \<le> b + 1 \<longrightarrow> B a \<le> B (b + 1))"
  using assms
proof (induction a b rule: upto.induct)
  case (1 a b)
  show ?case
  proof (cases "a \<le> b")
    case False
    then show ?thesis by (auto simp add: not_le dest: antisym)
  next
    case True
    have rest: "sorted_wrt (<) (concat (map g [a + 1..b]))
        \<and> set (concat (map g [a + 1..b])) \<subseteq> {B (a + 1)..<B (b + 1)}
        \<and> (a + 1 \<le> b + 1 \<longrightarrow> B (a + 1) \<le> B (b + 1))"
      by (rule "1.IH" [OF True]) (use "1.prems" in simp_all)
    from "1.prems"(1) [of a] True have here: "sorted_wrt (<) (g a)" "set (g a) \<subseteq> {B a..<B (a + 1)}"
      by simp_all
    from "1.prems"(2) [of a] True have up: "B a \<le> B (a + 1)" by simp
    from rest True have chain: "B (a + 1) \<le> B (b + 1)" by simp
    have cross: "x < y" if "x \<in> set (g a)" "y \<in> set (concat (map g [a + 1..b]))" for x y
    proof -
      from that(1) here(2) have "x < B (a + 1)" by auto
      moreover from that(2) rest have "B (a + 1) \<le> y" by auto
      ultimately show ?thesis by simp
    qed
    have "concat (map g [a..b]) = g a @ concat (map g [a + 1..b])"
      using True by (simp add: upto_rec1)
    moreover have "set (g a) \<subseteq> {B a..<B (b + 1)}"
      using here(2) chain by auto
    moreover have "set (concat (map g [a + 1..b])) \<subseteq> {B a..<B (b + 1)}"
      using rest up by auto
    ultimately show ?thesis
      using here(1) rest cross up chain by (simp add: sorted_wrt_append) 
  qed
qed

lemma hex_first_row:
  assumes nzx: "0 \<le> nzones_x m" and nzy: "1 \<le> nzones_y m"
    and npx: "num_points_x m = nzones_x m + 1"
    and zx: "0 < zone_x_offset m" "zone_x_offset m + nzones_x m \<le> global_nzones_x m"
    and zy: "0 < zone_y_offset m" "zone_y_offset m \<noteq> global_nzones_y m"
  shows "hex_row_npoints m 0 = 2 * nzones_x m + 1"
proof -
  have two: "hex_npoints m i 0 = 2" if "i \<in> set [0..nzones_x m - 1]" for i
    using that zx zy nzy by (auto simp add: hex_npoints_def Let_def)
  have last: "hex_npoints m (nzones_x m) 0 = 1"
    by (simp add: hex_npoints_def Let_def)
  have "[0..num_points_x m - 1] = [0..nzones_x m - 1] @ [nzones_x m]"
    using upto_rec2 [of 0 "nzones_x m"] nzx npx by simp
  then have "hex_row_npoints m 0
      = sum_list (map (\<lambda>i. hex_npoints m i 0) [0..nzones_x m - 1]) + 1"
    by (simp add: hex_row_npoints_def last)
  also have "map (\<lambda>i. hex_npoints m i 0) [0..nzones_x m - 1] = map (\<lambda>i. 2) [0..nzones_x m - 1]"
    by (rule map_cong) (simp_all add: two)
  finally show ?thesis using nzx by (simp add: sum_list_triv)
qed

lemma length_concat_const:
  assumes "\<And>x. x \<in> set xs \<Longrightarrow> length (g x) = c"
  shows "length (concat (map g xs)) = c * length xs"
  using assms by (induction xs) simp_all

lemma hex_left_length:
  assumes "1 \<le> n"
  shows "int (length (concat (map (\<lambda>j. if j = n then [B j] else [B j, B j + 1]) [1..n]))) = 2 * n - 1"
proof -
  have "[1..n] = [1..n - 1] @ [n]" using assms by (rule upto_rec2)
  moreover have "length (concat (map (\<lambda>j. if j = n then [B j] else [B j, B j + 1]) [1..n - 1]))
      = 2 * length [1..n - 1]"
    by (rule length_concat_const) auto
  ultimately show ?thesis using assms by simp
qed

lemma hex_slaves_distinct:
  assumes nzx: "1 \<le> nzones_x m" and nzy: "1 \<le> nzones_y m" and npx: "2 \<le> num_points_x m"
    and base: "2 * nzones_x m + 1 \<le> hex_base m 1"
  shows "distinct ([0, 1] @ [2..2 * nzones_x m]
           @ concat (map (\<lambda>j. if j = nzones_y m then [hex_base m j]
                                else [hex_base m j, hex_base m j + 1]) [1..nzones_y m]))"
proof -
  let ?g = "\<lambda>j. if j = nzones_y m then [hex_base m j] else [hex_base m j, hex_base m j + 1]"
  have grow: "hex_base m j + 2 \<le> hex_base m (j + 1)" if "1 \<le> j" for j
    using hex_base_Suc [of j m] hex_row_npoints_ge [of m j] that npx by simp
  have "sorted_wrt (<) (concat (map ?g [1..nzones_y m]))
      \<and> set (concat (map ?g [1..nzones_y m])) \<subseteq> {hex_base m 1..<hex_base m (nzones_y m + 1)}
      \<and> (1 \<le> nzones_y m + 1 \<longrightarrow> hex_base m 1 \<le> hex_base m (nzones_y m + 1))"
  proof (rule sorted_blocks)
    fix j :: int
    assume j: "1 \<le> j" "j \<le> nzones_y m"
    from grow [OF j(1)] show "hex_base m j \<le> hex_base m (j + 1)" by simp
    from grow [OF j(1)] show "sorted_wrt (<) (?g j) \<and> set (?g j) \<subseteq> {hex_base m j..<hex_base m (j + 1)}"
      by auto
  qed
  then have srt: "sorted_wrt (<) (concat (map ?g [1..nzones_y m]))"
    and low: "\<And>x. x \<in> set (concat (map ?g [1..nzones_y m])) \<Longrightarrow> hex_base m 1 \<le> x"
    by auto
  from srt have d2: "distinct (concat (map ?g [1..nzones_y m]))"
    by (simp add: strict_sorted_iff)
  have d1: "distinct ([0, 1] @ [2..2 * nzones_x m])" by simp
  have high: "x < hex_base m 1" if "x \<in> set ([0, 1] @ [2..2 * nzones_x m])" for x
    using that base nzx by auto
  have "set ([0, 1] @ [2..2 * nzones_x m]) \<inter> set (concat (map ?g [1..nzones_y m])) = {}"
  proof (rule ccontr)
    assume "set ([0, 1] @ [2..2 * nzones_x m]) \<inter> set (concat (map ?g [1..nzones_y m])) \<noteq> {}"
    then obtain x where "x \<in> set ([0, 1] @ [2..2 * nzones_x m])"
      "x \<in> set (concat (map ?g [1..nzones_y m]))"
      by blast
    with high [of x] low [of x] show False by simp
  qed
  with d1 d2 have "distinct (([0, 1] @ [2..2 * nzones_x m]) @ concat (map ?g [1..nzones_y m]))"
    by (simp only: distinct_append simp_thms)
  then show ?thesis by (simp only: append_assoc)
qed

lemma hex_corner_dedup:
  assumes nzx: "1 \<le> nzones_x r" and nzy: "1 \<le> nzones_y r"
    and npx: "num_points_x r = nzones_x r + 1" and npy: "num_points_y r = nzones_y r + 1"
    and multi: "num_subregions r \<noteq> 1"
    and inner: "0 < proc_index_x r" "0 < proc_index_y r"
  shows "\<exists>h. generateHaloPointsHex r no_halo = Inr h
           \<and> master_colors h = [my_color r - num_proc_x r - 1, my_color r - num_proc_x r, my_color r - 1]
           \<and> slaved_points_counts h = [2, 2 * nzones_x r - 1, 2 * nzones_y r - 1]
           \<and> slaved_points h = [0, 1] @ [2..2 * nzones_x r]
                @ concat (map (\<lambda>j. if j = nzones_y r then [hex_base r j]
                                     else [hex_base r j, hex_base r j + 1]) [1..nzones_y r])"
proof -
  let ?pbase = "map (hex_base r) [0..num_points_y r - 1]"
  let ?left = "concat (map (\<lambda>j. if j = nzones_y r then [hex_base r j]
                                  else [hex_base r j, hex_base r j + 1]) [1..nzones_y r])"
  have rows: "hex_count_rows r = Inr (?pbase, hex_base r (num_points_y r))"
    using nzy npy by (intro hex_count_rows_eq) simp
  have pix: "proc_index_x r \<noteq> 0" and piy: "proc_index_y r \<noteq> 0" using inner by simp_all
  define h2 where "h2 = hex_slave_below r (hex_slave_corner r no_halo)"
  have h2: "slaved_points h2 = [0, 1] @ [2..2 * nzones_x r]"
    "master_colors h2 = [my_color r - num_proc_x r - 1, my_color r - num_proc_x r]"
    "slaved_points_counts h2 = [2, 2 * nzones_x r - 1]"
    using pix piy nzx
    by (simp_all add: h2_def hex_slave_corner_def hex_slave_below_def no_halo_def
        hex_below_loop [OF pix nzx npx])
  define h3 where "h3 = h2\<lparr>slaved_points := slaved_points h2 @ ?left,
      master_colors := master_colors h2 @ [my_color r - 1],
      slaved_points_counts := slaved_points_counts h2 @ [2 * nzones_y r - 1]\<rparr>"
  have s3: "hex_slave_left r ?pbase h2 = Inr h3"
    using pix hex_left_length [OF nzy, of "hex_base r"]
    by (simp add: hex_slave_left_def hex_left_loop [OF piy nzy npy] h3_def)
  from hex_masters [of r "hex_base r (num_points_y r)" h3] nzy npy obtain h where
    h: "rbind (hex_master_right r ?pbase (hex_base r (num_points_y r)) h3)
          (\<lambda>h. rbind (hex_master_above r ?pbase h)
                  (\<lambda>h. Inr (hex_master_corner r (hex_base r (num_points_y r)) h))) = Inr h"
      "slaved_points h = slaved_points h3" "master_colors h = master_colors h3"
      "slaved_points_counts h = slaved_points_counts h3"
    by auto
  have nn: "0 \<le> num_points_x r" "0 \<le> num_points_y r"
    using nzx nzy npx npy by simp_all
  have "generateHaloPointsHex r no_halo
      = rbind (hex_slave_left r ?pbase h2) (\<lambda>h.
          rbind (hex_master_right r ?pbase (hex_base r (num_points_y r)) h)
            (\<lambda>h. rbind (hex_master_above r ?pbase h)
                    (\<lambda>h. Inr (hex_master_corner r (hex_base r (num_points_y r)) h))))"
    using multi nn by (simp add: generateHaloPointsHex_def rows reserving_def h2_def)
  then have "generateHaloPointsHex r no_halo = Inr h"
    by (simp only: s3 rbind_Inr h(1))
  with h(2-4) h2 show ?thesis
    by (simp add: h3_def)
qed

lemma sdiv_nonneg:
  fixes a b :: int
  assumes "0 \<le> a" "0 < b"
  shows "a sdiv b = a div b"
  using assms by (simp add: signed_divide_int_def sgn_if)
lemma muPermutation_in_range:
  assumes "muPermutation npx npy nbx nby = Inr prm"
  shows "npx * npy \<le> 2147483647"
  using assms
  by (auto simp add: muPermutation_def rbind_eq_Inr int32_eq_Inr split: if_splits)

lemma inner_rank_small:
  assumes g: "1 \<le> global_nzones_x m" "1 \<le> global_nzones_y m"
    and nb: "1 \<le> num_proc_x m" "1 \<le> num_proc_y m"
    and color: "0 \<le> color" "color < num_proc_x m * num_proc_y m"
    and run: "rank_state m color = Inr r"
    and inner: "0 < proc_index_x r" "0 < proc_index_y r"
  shows "2 * (num_points_x r * num_points_y r) < 2147483647"
proof -
  note f = rank_facts [OF g nb run]
  note c = rank_state_Inr [OF g nb run]
  define A B where "A = nzones_x r" and "B = nzones_y r"
  define P Q where "P = num_proc_x m" and "Q = num_proc_y m"
  have pix: "proc_index_x r < P"
    unfolding f(8) P_def using color(1) nb(1) by (intro smod_int_compares) simp_all
  have piy: "proc_index_y r < Q"
  proof -
    have "0 < num_proc_x m" using nb by simp
    then have "color div num_proc_x m < num_proc_y m"
      using color(2) by (rule int_div_less)
    then show ?thesis unfolding f(9) Q_def using color(1) nb(1) by (simp add: sdiv_nonneg)
  qed
  have PQ: "2 \<le> P" "2 \<le> Q" using pix piy inner by simp_all
  have AB: "1 \<le> A" "1 \<le> B" using f(6,7) by (simp_all add: A_def B_def)
  have "2 * A \<le> A * P" using mult_left_mono [OF PQ(1), of A] AB by simp
  moreover have "2 * B \<le> B * Q" using mult_left_mono [OF PQ(2), of B] AB by simp
  ultimately have "(2 * A + 1) * (2 * B + 1) \<le> (A * P + 1) * (B * Q + 1)"
    using AB by (intro mult_mono) simp_all
  moreover have "1 * 1 \<le> A * B" using AB by (intro mult_mono) simp_all
  then have "2 * ((A + 1) * (B + 1)) < (2 * A + 1) * (2 * B + 1)"
    by (simp add: algebra_simps)
  moreover have "(A * P + 1) * (B * Q + 1) \<le> 2147483647"
    using muPermutation_in_range [OF c(6)] unfolding c(2,3) A_def B_def P_def Q_def .
  ultimately have "2 * ((A + 1) * (B + 1)) < 2147483647" by linarith
  then show ?thesis unfolding f(4,5) A_def B_def .
qed

text \<open>
  Claim C8. A rank is a state \<open>r\<close> that \<open>rank_state\<close> returns for a colour of the processor
  grid: the members as \<^verbatim>\<open>calcLocalConstants\<close> assigns them, no sum or product of the
  calculation leaving the 32-bit range. For each of the three families and every rank that
  has a neighbour to the left and a neighbour below (\<open>proc_index_x > 0\<close> and
  \<open>proc_index_y > 0\<close>), the halo enumerator,
  started with empty vectors, reports three slave relations, in this order: the diagonal
  neighbour, the neighbour below and the neighbour to the left. The diagonal relation holds
  the corner point (local index 0; the two corner points 0 and 1 of a hex mesh); the list of
  the neighbour below leaves out its first column entry and the list of the left neighbour
  leaves out its first row entry, so their counts are one position short of a full row and
  a full column; and no local point index occurs twice in \<^verbatim>\<open>slaved_points\<close>, that is, under
  more than one slave relation. Twice the number of local grid positions is less than the
  largest \<^verbatim>\<open>int\<close>, so the point indices and cursors of the enumerators do not overflow
  either.
\<close>

theorem slave_relations_corner_deduplicated:
  assumes fam: "meshtype m \<in> {''rect'', ''pie'', ''hex''}"
    and g: "1 \<le> global_nzones_x m" "1 \<le> global_nzones_y m"
    and nb: "1 \<le> num_proc_x m" "1 \<le> num_proc_y m"
    and P: "num_subregions m = num_proc_x m * num_proc_y m"
    and color: "0 \<le> color" "color < num_proc_x m * num_proc_y m"
    and run: "rank_state m color = Inr r"
    and inner: "0 < proc_index_x r" "0 < proc_index_y r"
  shows "(\<exists>h. generateHaloPoints r no_halo = Inr h
            \<and> master_colors h = [color - num_proc_x m - 1, color - num_proc_x m, color - 1]
            \<and> slaved_points_counts h
                = (if meshtype m = ''hex'' then [2, 2 * nzones_x r - 1, 2 * nzones_y r - 1]
                   else [1, nzones_x r, nzones_y r])
            \<and> segment (slaved_points_counts h) (slaved_points h) 0
                = (if meshtype m = ''hex'' then [0, 1] else [0])
            \<and> int (length (slaved_points h)) = sum_list (slaved_points_counts h)
            \<and> distinct (slaved_points h))
       \<and> 2 * (num_points_x r * num_points_y r) < 2147483647"
proof -
  have halo: "\<exists>h. generateHaloPoints r no_halo = Inr h
             \<and> master_colors h = [color - num_proc_x m - 1, color - num_proc_x m, color - 1]
             \<and> slaved_points_counts h
                 = (if meshtype m = ''hex'' then [2, 2 * nzones_x r - 1, 2 * nzones_y r - 1]
                    else [1, nzones_x r, nzones_y r])
             \<and> segment (slaved_points_counts h) (slaved_points h) 0
                 = (if meshtype m = ''hex'' then [0, 1] else [0])
             \<and> int (length (slaved_points h)) = sum_list (slaved_points_counts h)
             \<and> distinct (slaved_points h)"
  proof -
    note f = rank_facts [OF g nb run]
    have px: "1 \<le> num_points_x r" and py: "1 \<le> num_points_y r"
      using f(4-7) by simp_all
    have pix: "proc_index_x r < num_proc_x m"
      unfolding f(8) using color(1) nb(1) by (intro smod_int_compares) simp_all
    have piy: "proc_index_y r < num_proc_y m"
    proof -
      have "0 < num_proc_x m" using nb by simp
      then have "color div num_proc_x m < num_proc_y m"
        using color(2) by (rule int_div_less)
      then show ?thesis unfolding f(9) using color(1) nb(1) by (simp add: sdiv_nonneg)
    qed
    have multi: "num_subregions r \<noteq> 1"
    proof
      assume "num_subregions r = 1"
      then have "num_proc_x m * num_proc_y m = 1" using f(16) P by simp
      then have "num_proc_x m = 1" using nb by (simp add: zmult_eq_1_iff)
      with pix inner show False by simp
    qed
    let ?a = "num_points_x r" and ?b = "num_points_y r"
    let ?raster = "0 # walk_indices True 0 1 ?a @ walk_indices True 0 ?a ?b"
    have len: "int (length ?raster) = 1 + nzones_x r + nzones_y r"
      using f(4-7) by (simp add: length_walk_indices)
    consider (rect) "meshtype m = ''rect''" | (pie) "meshtype m = ''pie''" | (hex) "meshtype m = ''hex''"
      using fam by auto
    then show ?thesis
    proof cases
      case rect
      from rect_corner_dedup [OF f(1) px py multi inner] obtain h where
        h: "generateHaloPointsRect r no_halo = Inr h"
          "master_colors h = [my_color r - num_proc_x r - 1, my_color r - num_proc_x r, my_color r - 1]"
          "slaved_points_counts h = [1, ?a - 1, ?b - 1]"
          "slaved_points h = map (\<lambda>p. perm r ! nat p) ?raster"
        by blast
      have "distinct (slaved_points h)"
        unfolding h(4) using corner_walks_distinct [OF px py] f(1,2)
        by (intro distinct_map_nth) simp_all
      moreover have "generateHaloPoints r no_halo = Inr h"
        using rect h(1) by (simp add: generateHaloPoints_def f(17))
      moreover have "segment (slaved_points_counts h) (slaved_points h) 0 = [0]"
        by (simp add: h(3,4) segment_def f(3))
      moreover have "int (length (slaved_points h)) = sum_list (slaved_points_counts h)"
        unfolding h(3,4) length_map len using f(4,5) by simp
      ultimately show ?thesis
        using rect h(2,3) f by simp
    next
      case pie
      from pie_corner_dedup [OF px py multi inner] obtain h where
        h: "generateHaloPointsPie r no_halo = Inr h"
          "master_colors h = [my_color r - num_proc_x r - 1, my_color r - num_proc_x r, my_color r - 1]"
          "slaved_points_counts h = [1, ?a - 1, ?b - 1]"
          "slaved_points h = ?raster"
        by blast
      have "distinct (slaved_points h)"
        unfolding h(4) by (rule corner_walks_distinct(1) [OF px py])
      moreover have "generateHaloPoints r no_halo = Inr h"
        using pie h(1) by (simp add: generateHaloPoints_def f(17))
      moreover have "segment (slaved_points_counts h) (slaved_points h) 0 = [0]"
        by (simp add: h(3,4) segment_def)
      moreover have "int (length (slaved_points h)) = sum_list (slaved_points_counts h)"
        unfolding h(3,4) len using f(4,5) by simp
      ultimately show ?thesis
        using pie h(2,3) f by simp
    next
      case hex
      let ?left = "concat (map (\<lambda>j. if j = nzones_y r then [hex_base r j]
                                      else [hex_base r j, hex_base r j + 1]) [1..nzones_y r])"
      from hex_corner_dedup [OF f(6,7,4,5) multi inner] obtain h where
        h: "generateHaloPointsHex r no_halo = Inr h"
          "master_colors h = [my_color r - num_proc_x r - 1, my_color r - num_proc_x r, my_color r - 1]"
          "slaved_points_counts h = [2, 2 * nzones_x r - 1, 2 * nzones_y r - 1]"
          "slaved_points h = [0, 1] @ [2..2 * nzones_x r] @ ?left"
        by blast
      have zx: "0 < zone_x_offset r" "zone_x_offset r + nzones_x r \<le> global_nzones_x r"
      proof -
        show "0 < zone_x_offset r" unfolding f(10) using inner f(6) by simp
        have "(proc_index_x r + 1) * nzones_x r \<le> num_proc_x r * nzones_x r"
          using pix f(6,14) by (intro mult_right_mono) simp_all
        then show "zone_x_offset r + nzones_x r \<le> global_nzones_x r"
          unfolding f(10,12) by (simp add: algebra_simps)
      qed
      have zy: "0 < zone_y_offset r" "zone_y_offset r \<noteq> global_nzones_y r"
      proof -
        show "0 < zone_y_offset r" unfolding f(11) using inner f(7) by simp
        have "proc_index_y r * nzones_y r < num_proc_y r * nzones_y r"
          using piy f(7,15) by (intro mult_strict_right_mono) simp_all
        then have "zone_y_offset r < global_nzones_y r"
          unfolding f(11,13) by (simp only: mult.commute)
        then show "zone_y_offset r \<noteq> global_nzones_y r" by simp
      qed
      have "hex_base r 1 = hex_row_npoints r 0"
        using hex_base_Suc [of 0 r] by (simp add: hex_base_0)
      also have "\<dots> = 2 * nzones_x r + 1"
        using f(6,7) by (intro hex_first_row f(4) zx zy) simp_all
      finally have base: "2 * nzones_x r + 1 \<le> hex_base r 1" by simp
      have "2 \<le> num_points_x r" using f(4,6) by simp
      from hex_slaves_distinct [OF f(6,7) this base]
      have "distinct (slaved_points h)" unfolding h(4) .
      moreover have "generateHaloPoints r no_halo = Inr h"
        using hex h(1) by (simp add: generateHaloPoints_def f(17))
      moreover have "segment (slaved_points_counts h) (slaved_points h) 0 = [0, 1]"
        by (simp add: h(3,4) segment_def)
      moreover have "int (length (slaved_points h)) = sum_list (slaved_points_counts h)"
        unfolding h(3,4) using hex_left_length [OF f(7), of "hex_base r"] f(6) by simp
      ultimately show ?thesis
        using hex h(2,3) f by simp
    qed
  qed
  from halo inner_rank_small [OF g nb color run inner] show ?thesis
    by (rule conjI)
qed

theorem slave_relations_corner_deduplicated_witness:
  "(0::int) \<le> 3 \<and> (3::int) < 2 * 2
   \<and> meshtype ((members ''rect'' 4 4 1 1 4 3)\<lparr>num_proc_x := 2, num_proc_y := 2\<rparr>)
     \<in> {''rect'', ''pie'', ''hex''}
   \<and> 1 \<le> global_nzones_x ((members ''rect'' 4 4 1 1 4 3)\<lparr>num_proc_x := 2, num_proc_y := 2\<rparr>)
   \<and> 1 \<le> global_nzones_y ((members ''rect'' 4 4 1 1 4 3)\<lparr>num_proc_x := 2, num_proc_y := 2\<rparr>)
   \<and> 1 \<le> num_proc_x ((members ''rect'' 4 4 1 1 4 3)\<lparr>num_proc_x := 2, num_proc_y := 2\<rparr>)
   \<and> 1 \<le> num_proc_y ((members ''rect'' 4 4 1 1 4 3)\<lparr>num_proc_x := 2, num_proc_y := 2\<rparr>)
   \<and> num_subregions ((members ''rect'' 4 4 1 1 4 3)\<lparr>num_proc_x := 2, num_proc_y := 2\<rparr>) = 2 * 2
   \<and> rank_state ((members ''rect'' 4 4 1 1 4 3)\<lparr>num_proc_x := 2, num_proc_y := 2\<rparr>) 3
       = Inr (projr (rank_mesh ''rect'' 4 4 2 2 3))
   \<and> 0 < proc_index_x (projr (rank_mesh ''rect'' 4 4 2 2 3))
   \<and> 0 < proc_index_y (projr (rank_mesh ''rect'' 4 4 2 2 3))
   \<and> (\<exists>h. generateHaloPoints (projr (rank_mesh ''rect'' 4 4 2 2 3)) no_halo = Inr h
          \<and> master_colors h = [0, 1, 2]
          \<and> slaved_points_counts h = [1, 2, 2]
          \<and> segment (slaved_points_counts h) (slaved_points h) 0 = [0]
          \<and> int (length (slaved_points h)) = 5
          \<and> distinct (slaved_points h))
   \<and> (2::int) * (3 * 3) < 2147483647
   \<and> meshtype ((members ''pie'' 4 4 1 1 4 3)\<lparr>num_proc_x := 2, num_proc_y := 2\<rparr>)
     \<in> {''rect'', ''pie'', ''hex''}
   \<and> 1 \<le> global_nzones_x ((members ''pie'' 4 4 1 1 4 3)\<lparr>num_proc_x := 2, num_proc_y := 2\<rparr>)
   \<and> 1 \<le> global_nzones_y ((members ''pie'' 4 4 1 1 4 3)\<lparr>num_proc_x := 2, num_proc_y := 2\<rparr>)
   \<and> 1 \<le> num_proc_x ((members ''pie'' 4 4 1 1 4 3)\<lparr>num_proc_x := 2, num_proc_y := 2\<rparr>)
   \<and> 1 \<le> num_proc_y ((members ''pie'' 4 4 1 1 4 3)\<lparr>num_proc_x := 2, num_proc_y := 2\<rparr>)
   \<and> num_subregions ((members ''pie'' 4 4 1 1 4 3)\<lparr>num_proc_x := 2, num_proc_y := 2\<rparr>) = 2 * 2
   \<and> rank_state ((members ''pie'' 4 4 1 1 4 3)\<lparr>num_proc_x := 2, num_proc_y := 2\<rparr>) 3
       = Inr (projr (rank_mesh ''pie'' 4 4 2 2 3))
   \<and> 0 < proc_index_x (projr (rank_mesh ''pie'' 4 4 2 2 3))
   \<and> 0 < proc_index_y (projr (rank_mesh ''pie'' 4 4 2 2 3))
   \<and> (\<exists>h. generateHaloPoints (projr (rank_mesh ''pie'' 4 4 2 2 3)) no_halo = Inr h
          \<and> master_colors h = [0, 1, 2]
          \<and> slaved_points_counts h = [1, 2, 2]
          \<and> segment (slaved_points_counts h) (slaved_points h) 0 = [0]
          \<and> int (length (slaved_points h)) = 5
          \<and> distinct (slaved_points h))
   \<and> (2::int) * (3 * 3) < 2147483647
   \<and> meshtype ((members ''hex'' 4 4 1 1 4 3)\<lparr>num_proc_x := 2, num_proc_y := 2\<rparr>)
     \<in> {''rect'', ''pie'', ''hex''}
   \<and> 1 \<le> global_nzones_x ((members ''hex'' 4 4 1 1 4 3)\<lparr>num_proc_x := 2, num_proc_y := 2\<rparr>)
   \<and> 1 \<le> global_nzones_y ((members ''hex'' 4 4 1 1 4 3)\<lparr>num_proc_x := 2, num_proc_y := 2\<rparr>)
   \<and> 1 \<le> num_proc_x ((members ''hex'' 4 4 1 1 4 3)\<lparr>num_proc_x := 2, num_proc_y := 2\<rparr>)
   \<and> 1 \<le> num_proc_y ((members ''hex'' 4 4 1 1 4 3)\<lparr>num_proc_x := 2, num_proc_y := 2\<rparr>)
   \<and> num_subregions ((members ''hex'' 4 4 1 1 4 3)\<lparr>num_proc_x := 2, num_proc_y := 2\<rparr>) = 2 * 2
   \<and> rank_state ((members ''hex'' 4 4 1 1 4 3)\<lparr>num_proc_x := 2, num_proc_y := 2\<rparr>) 3
       = Inr (projr (rank_mesh ''hex'' 4 4 2 2 3))
   \<and> 0 < proc_index_x (projr (rank_mesh ''hex'' 4 4 2 2 3))
   \<and> 0 < proc_index_y (projr (rank_mesh ''hex'' 4 4 2 2 3))
   \<and> (\<exists>h. generateHaloPoints (projr (rank_mesh ''hex'' 4 4 2 2 3)) no_halo = Inr h
          \<and> master_colors h = [0, 1, 2]
          \<and> slaved_points_counts h = [2, 3, 3]
          \<and> segment (slaved_points_counts h) (slaved_points h) 0 = [0, 1]
          \<and> int (length (slaved_points h)) = 8
          \<and> distinct (slaved_points h))
   \<and> (2::int) * (3 * 3) < 2147483647"
proof -
  have color: "0 \<le> (3::int)" "(3::int) < 2 * 2" by simp_all
  have rect: "(\<exists>h. generateHaloPoints (projr (rank_mesh ''rect'' 4 4 2 2 3)) no_halo = Inr h
          \<and> master_colors h = [0, 1, 2]
          \<and> slaved_points_counts h = [1, 2, 2]
          \<and> segment (slaved_points_counts h) (slaved_points h) 0 = [0]
          \<and> int (length (slaved_points h)) = 5
          \<and> distinct (slaved_points h))
   \<and> (2::int) * (3 * 3) < 2147483647"
    and rect_h: "meshtype ((members ''rect'' 4 4 1 1 4 3)\<lparr>num_proc_x := 2, num_proc_y := 2\<rparr>) \<in> {''rect'', ''pie'', ''hex''}"
      "1 \<le> global_nzones_x ((members ''rect'' 4 4 1 1 4 3)\<lparr>num_proc_x := 2, num_proc_y := 2\<rparr>)" "1 \<le> global_nzones_y ((members ''rect'' 4 4 1 1 4 3)\<lparr>num_proc_x := 2, num_proc_y := 2\<rparr>)"
      "1 \<le> num_proc_x ((members ''rect'' 4 4 1 1 4 3)\<lparr>num_proc_x := 2, num_proc_y := 2\<rparr>)" "1 \<le> num_proc_y ((members ''rect'' 4 4 1 1 4 3)\<lparr>num_proc_x := 2, num_proc_y := 2\<rparr>)"
      "num_subregions ((members ''rect'' 4 4 1 1 4 3)\<lparr>num_proc_x := 2, num_proc_y := 2\<rparr>) = 2 * 2"
      "rank_state ((members ''rect'' 4 4 1 1 4 3)\<lparr>num_proc_x := 2, num_proc_y := 2\<rparr>) 3 = Inr (projr (rank_mesh ''rect'' 4 4 2 2 3))"
      "0 < proc_index_x (projr (rank_mesh ''rect'' 4 4 2 2 3))" "0 < proc_index_y (projr (rank_mesh ''rect'' 4 4 2 2 3))"
  proof -
    let ?m = "((members ''rect'' 4 4 1 1 4 3)\<lparr>num_proc_x := 2, num_proc_y := 2\<rparr>)"
    let ?r = "projr (rank_mesh ''rect'' 4 4 2 2 3)"
    have h: "meshtype ?m \<in> {''rect'', ''pie'', ''hex''}" "1 \<le> global_nzones_x ?m"
      "1 \<le> global_nzones_y ?m" "1 \<le> num_proc_x ?m" "1 \<le> num_proc_y ?m"
      by (simp_all add: members_def)
    have P: "num_subregions ?m = num_proc_x ?m * num_proc_y ?m"
      by (simp add: members_def)
    have c: "0 \<le> (3::int)" "3 < num_proc_x ?m * num_proc_y ?m"
      by (simp_all add: members_def)
    have run: "rank_state ?m 3 = Inr ?r"
      unfolding rank_mesh_def by code_simp
    have inner: "0 < proc_index_x ?r" "0 < proc_index_y ?r"
      by code_simp+
    have vals: "nzones_x ?r = 2" "nzones_y ?r = 2" "meshtype ?m = ''rect''" "num_proc_x ?m = 2"
      "num_points_x ?r = 3" "num_points_y ?r = 3"
      by code_simp+
    from slave_relations_corner_deduplicated [OF h P c run inner]
    show "(\<exists>h. generateHaloPoints ?r no_halo = Inr h
          \<and> master_colors h = [0, 1, 2]
          \<and> slaved_points_counts h = [1, 2, 2]
          \<and> segment (slaved_points_counts h) (slaved_points h) 0 = [0]
          \<and> int (length (slaved_points h)) = 5
          \<and> distinct (slaved_points h))
   \<and> (2::int) * (3 * 3) < 2147483647"
      unfolding vals by auto
    show "meshtype ?m \<in> {''rect'', ''pie'', ''hex''}"
      "1 \<le> global_nzones_x ?m" "1 \<le> global_nzones_y ?m"
      "1 \<le> num_proc_x ?m" "1 \<le> num_proc_y ?m"
      "num_subregions ?m = 2 * 2"
      "rank_state ?m 3 = Inr ?r"
      "0 < proc_index_x ?r" "0 < proc_index_y ?r"
      using h run inner by (simp_all add: members_def)
  qed
  have pie: "(\<exists>h. generateHaloPoints (projr (rank_mesh ''pie'' 4 4 2 2 3)) no_halo = Inr h
          \<and> master_colors h = [0, 1, 2]
          \<and> slaved_points_counts h = [1, 2, 2]
          \<and> segment (slaved_points_counts h) (slaved_points h) 0 = [0]
          \<and> int (length (slaved_points h)) = 5
          \<and> distinct (slaved_points h))
   \<and> (2::int) * (3 * 3) < 2147483647"
    and pie_h: "meshtype ((members ''pie'' 4 4 1 1 4 3)\<lparr>num_proc_x := 2, num_proc_y := 2\<rparr>) \<in> {''rect'', ''pie'', ''hex''}"
      "1 \<le> global_nzones_x ((members ''pie'' 4 4 1 1 4 3)\<lparr>num_proc_x := 2, num_proc_y := 2\<rparr>)" "1 \<le> global_nzones_y ((members ''pie'' 4 4 1 1 4 3)\<lparr>num_proc_x := 2, num_proc_y := 2\<rparr>)"
      "1 \<le> num_proc_x ((members ''pie'' 4 4 1 1 4 3)\<lparr>num_proc_x := 2, num_proc_y := 2\<rparr>)" "1 \<le> num_proc_y ((members ''pie'' 4 4 1 1 4 3)\<lparr>num_proc_x := 2, num_proc_y := 2\<rparr>)"
      "num_subregions ((members ''pie'' 4 4 1 1 4 3)\<lparr>num_proc_x := 2, num_proc_y := 2\<rparr>) = 2 * 2"
      "rank_state ((members ''pie'' 4 4 1 1 4 3)\<lparr>num_proc_x := 2, num_proc_y := 2\<rparr>) 3 = Inr (projr (rank_mesh ''pie'' 4 4 2 2 3))"
      "0 < proc_index_x (projr (rank_mesh ''pie'' 4 4 2 2 3))" "0 < proc_index_y (projr (rank_mesh ''pie'' 4 4 2 2 3))"
  proof -
    let ?m = "((members ''pie'' 4 4 1 1 4 3)\<lparr>num_proc_x := 2, num_proc_y := 2\<rparr>)"
    let ?r = "projr (rank_mesh ''pie'' 4 4 2 2 3)"
    have h: "meshtype ?m \<in> {''rect'', ''pie'', ''hex''}" "1 \<le> global_nzones_x ?m"
      "1 \<le> global_nzones_y ?m" "1 \<le> num_proc_x ?m" "1 \<le> num_proc_y ?m"
      by (simp_all add: members_def)
    have P: "num_subregions ?m = num_proc_x ?m * num_proc_y ?m"
      by (simp add: members_def)
    have c: "0 \<le> (3::int)" "3 < num_proc_x ?m * num_proc_y ?m"
      by (simp_all add: members_def)
    have run: "rank_state ?m 3 = Inr ?r"
      unfolding rank_mesh_def by code_simp
    have inner: "0 < proc_index_x ?r" "0 < proc_index_y ?r"
      by code_simp+
    have vals: "nzones_x ?r = 2" "nzones_y ?r = 2" "meshtype ?m = ''pie''" "num_proc_x ?m = 2"
      "num_points_x ?r = 3" "num_points_y ?r = 3"
      by code_simp+
    from slave_relations_corner_deduplicated [OF h P c run inner]
    show "(\<exists>h. generateHaloPoints ?r no_halo = Inr h
          \<and> master_colors h = [0, 1, 2]
          \<and> slaved_points_counts h = [1, 2, 2]
          \<and> segment (slaved_points_counts h) (slaved_points h) 0 = [0]
          \<and> int (length (slaved_points h)) = 5
          \<and> distinct (slaved_points h))
   \<and> (2::int) * (3 * 3) < 2147483647"
      unfolding vals by auto
    show "meshtype ?m \<in> {''rect'', ''pie'', ''hex''}"
      "1 \<le> global_nzones_x ?m" "1 \<le> global_nzones_y ?m"
      "1 \<le> num_proc_x ?m" "1 \<le> num_proc_y ?m"
      "num_subregions ?m = 2 * 2"
      "rank_state ?m 3 = Inr ?r"
      "0 < proc_index_x ?r" "0 < proc_index_y ?r"
      using h run inner by (simp_all add: members_def)
  qed
  have hex: "(\<exists>h. generateHaloPoints (projr (rank_mesh ''hex'' 4 4 2 2 3)) no_halo = Inr h
          \<and> master_colors h = [0, 1, 2]
          \<and> slaved_points_counts h = [2, 3, 3]
          \<and> segment (slaved_points_counts h) (slaved_points h) 0 = [0, 1]
          \<and> int (length (slaved_points h)) = 8
          \<and> distinct (slaved_points h))
   \<and> (2::int) * (3 * 3) < 2147483647"
    and hex_h: "meshtype ((members ''hex'' 4 4 1 1 4 3)\<lparr>num_proc_x := 2, num_proc_y := 2\<rparr>) \<in> {''rect'', ''pie'', ''hex''}"
      "1 \<le> global_nzones_x ((members ''hex'' 4 4 1 1 4 3)\<lparr>num_proc_x := 2, num_proc_y := 2\<rparr>)" "1 \<le> global_nzones_y ((members ''hex'' 4 4 1 1 4 3)\<lparr>num_proc_x := 2, num_proc_y := 2\<rparr>)"
      "1 \<le> num_proc_x ((members ''hex'' 4 4 1 1 4 3)\<lparr>num_proc_x := 2, num_proc_y := 2\<rparr>)" "1 \<le> num_proc_y ((members ''hex'' 4 4 1 1 4 3)\<lparr>num_proc_x := 2, num_proc_y := 2\<rparr>)"
      "num_subregions ((members ''hex'' 4 4 1 1 4 3)\<lparr>num_proc_x := 2, num_proc_y := 2\<rparr>) = 2 * 2"
      "rank_state ((members ''hex'' 4 4 1 1 4 3)\<lparr>num_proc_x := 2, num_proc_y := 2\<rparr>) 3 = Inr (projr (rank_mesh ''hex'' 4 4 2 2 3))"
      "0 < proc_index_x (projr (rank_mesh ''hex'' 4 4 2 2 3))" "0 < proc_index_y (projr (rank_mesh ''hex'' 4 4 2 2 3))"
  proof -
    let ?m = "((members ''hex'' 4 4 1 1 4 3)\<lparr>num_proc_x := 2, num_proc_y := 2\<rparr>)"
    let ?r = "projr (rank_mesh ''hex'' 4 4 2 2 3)"
    have h: "meshtype ?m \<in> {''rect'', ''pie'', ''hex''}" "1 \<le> global_nzones_x ?m"
      "1 \<le> global_nzones_y ?m" "1 \<le> num_proc_x ?m" "1 \<le> num_proc_y ?m"
      by (simp_all add: members_def)
    have P: "num_subregions ?m = num_proc_x ?m * num_proc_y ?m"
      by (simp add: members_def)
    have c: "0 \<le> (3::int)" "3 < num_proc_x ?m * num_proc_y ?m"
      by (simp_all add: members_def)
    have run: "rank_state ?m 3 = Inr ?r"
      unfolding rank_mesh_def by code_simp
    have inner: "0 < proc_index_x ?r" "0 < proc_index_y ?r"
      by code_simp+
    have vals: "nzones_x ?r = 2" "nzones_y ?r = 2" "meshtype ?m = ''hex''" "num_proc_x ?m = 2"
      "num_points_x ?r = 3" "num_points_y ?r = 3"
      by code_simp+
    from slave_relations_corner_deduplicated [OF h P c run inner]
    show "(\<exists>h. generateHaloPoints ?r no_halo = Inr h
          \<and> master_colors h = [0, 1, 2]
          \<and> slaved_points_counts h = [2, 3, 3]
          \<and> segment (slaved_points_counts h) (slaved_points h) 0 = [0, 1]
          \<and> int (length (slaved_points h)) = 8
          \<and> distinct (slaved_points h))
   \<and> (2::int) * (3 * 3) < 2147483647"
      unfolding vals by auto
    show "meshtype ?m \<in> {''rect'', ''pie'', ''hex''}"
      "1 \<le> global_nzones_x ?m" "1 \<le> global_nzones_y ?m"
      "1 \<le> num_proc_x ?m" "1 \<le> num_proc_y ?m"
      "num_subregions ?m = 2 * 2"
      "rank_state ?m 3 = Inr ?r"
      "0 < proc_index_x ?r" "0 < proc_index_y ?r"
      using h run inner by (simp_all add: members_def)
  qed
  from color rect rect_h pie pie_h hex hex_h show ?thesis
    by blast
qed

subsection \<open>Global identifiers of the points of a rect rank\<close>

lemma pointLocalToGlobalIDRect_empty_deperm:
  assumes "meshtype r = ''rect''" "deperm r = []"
  shows "pointLocalToGlobalID decls r s = Inl UndefinedBehaviour"
proof -
  have "vget (deperm r) s = Inl UndefinedBehaviour"
    using assms(2) by (simp add: vget_def)
  then show ?thesis
    using assms(1) by (simp add: pointLocalToGlobalID_def pointLocalToGlobalIDRect_def rbind_def)
qed

text \<open>
  Claim C1 says that, for a rect mesh on a 2 by 2 processor grid, the points that rank (0,0)
  lists as masters with the slave to the right and the points that rank (1,0) lists as
  slaves with the master to the left have the same global identifiers, position for
  position, under \<^verbatim>\<open>pointLocalToGlobalID\<close>. The rect mapping starts with \<^verbatim>\<open>deperm[s]\<close>, and
  \<^verbatim>\<open>deperm\<close> has size 0 in every object: the constructor only calls \<^verbatim>\<open>reserve\<close> on it before
  it writes to it. So the mapping of a rect mesh is a subscript out of range for every
  local index. For the mesh of 4 by 4 zones: \<^verbatim>\<open>calcLocalConstants\<close> ends in undefined
  behaviour on ranks 0 and 1; in the rank states \<^verbatim>\<open>deperm\<close> is empty; the two lists are
  \<open>[4, 5, 6]\<close> and \<open>[0, 1, 2]\<close>; and the mapping is undefined at each of the six indices.
\<close>

theorem pointLocalToGlobalIDRect_reads_empty_deperm:
  "pointLocalToGlobalID decls (r\<lparr>meshtype := ''rect'', deperm := []\<rparr>) s = Inl UndefinedBehaviour
   \<and> calcLocalConstants ((members ''rect'' 4 4 1 1 4 0)\<lparr>num_proc_x := 2, num_proc_y := 2\<rparr>) 0
       = Inl UndefinedBehaviour
   \<and> calcLocalConstants ((members ''rect'' 4 4 1 1 4 1)\<lparr>num_proc_x := 2, num_proc_y := 2\<rparr>) 1
       = Inl UndefinedBehaviour
   \<and> deperm (projr (rank_mesh ''rect'' 4 4 2 2 0)) = []
   \<and> deperm (projr (rank_mesh ''rect'' 4 4 2 2 1)) = []
   \<and> map_sum id (\<lambda>h. segment (master_points_counts h) (master_points h) 0)
         (generateHaloPointsRect (projr (rank_mesh ''rect'' 4 4 2 2 0)) no_halo) = Inr [4, 5, 6]
   \<and> map_sum id (\<lambda>h. segment (slaved_points_counts h) (slaved_points h) 0)
         (generateHaloPointsRect (projr (rank_mesh ''rect'' 4 4 2 2 1)) no_halo) = Inr [0, 1, 2]
   \<and> map (pointLocalToGlobalID decls (projr (rank_mesh ''rect'' 4 4 2 2 0))) [4, 5, 6]
       = [Inl UndefinedBehaviour, Inl UndefinedBehaviour, Inl UndefinedBehaviour]
   \<and> map (pointLocalToGlobalID decls (projr (rank_mesh ''rect'' 4 4 2 2 1))) [0, 1, 2]
       = [Inl UndefinedBehaviour, Inl UndefinedBehaviour, Inl UndefinedBehaviour]"
proof -
  let ?r0 = "projr (rank_mesh ''rect'' 4 4 2 2 0)"
  let ?r1 = "projr (rank_mesh ''rect'' 4 4 2 2 1)"
  have tag: "meshtype ?r0 = ''rect''" "meshtype ?r1 = ''rect''"
    by code_simp+
  have empty: "deperm ?r0 = []" "deperm ?r1 = []"
    by code_simp+
  have runs: "calcLocalConstants ((members ''rect'' 4 4 1 1 4 0)\<lparr>num_proc_x := 2, num_proc_y := 2\<rparr>) 0 = Inl UndefinedBehaviour"
    "calcLocalConstants ((members ''rect'' 4 4 1 1 4 1)\<lparr>num_proc_x := 2, num_proc_y := 2\<rparr>) 1 = Inl UndefinedBehaviour"
    by code_simp+
  have lists: "map_sum id (\<lambda>h. segment (master_points_counts h) (master_points h) 0)
         (generateHaloPointsRect ?r0 no_halo) = Inr [4, 5, 6]"
    "map_sum id (\<lambda>h. segment (slaved_points_counts h) (slaved_points h) 0)
         (generateHaloPointsRect ?r1 no_halo) = Inr [0, 1, 2]"
    by code_simp+
  have "pointLocalToGlobalID decls (r\<lparr>meshtype := ''rect'', deperm := []\<rparr>) s
      = Inl UndefinedBehaviour"
    by (rule pointLocalToGlobalIDRect_empty_deperm) simp_all
  with runs empty lists show ?thesis
    by (simp add: pointLocalToGlobalIDRect_empty_deperm [OF tag(1) empty(1)]
        pointLocalToGlobalIDRect_empty_deperm [OF tag(2) empty(2)])
qed

subsection \<open>The generators return\<close>

lemma forM_total_invariant:
  assumes "I s"
    and "\<And>x s. x \<in> set xs \<Longrightarrow> I s \<Longrightarrow> \<exists>s'. f x s = Inr s' \<and> I s'"
  shows "\<exists>s'. forM xs f s = Inr s' \<and> I s'"
  using assms
proof (induction xs arbitrary: s)
  case Nil
  then show ?case by simp
next
  case (Cons x xs)
  from Cons.prems(2) [of x s] Cons.prems(1) obtain t where t: "f x s = Inr t" "I t" by auto
  from Cons.IH [OF t(2)] Cons.prems(2) obtain s' where "forM xs f t = Inr s'" "I s'" by auto
  with t show ?case by simp
qed

lemma rect_points_returns:
  assumes lp: "int (length (perm m)) = num_points_x m * num_points_y m"
    and rng: "set (perm m) \<subseteq> {0..<num_points_x m * num_points_y m}"
    and px: "0 \<le> num_points_x m" and py: "0 \<le> num_points_y m"
  shows "\<exists>pp. rect_points m pointpos = Inr pp"
proof -
  define np where "np = num_points_x m * num_points_y m"
  have np: "0 \<le> np" using px py by (simp add: np_def)
  define pp0 where "pp0 = take (nat np) pointpos @ replicate (nat np - length pointpos) (0, 0)"
  have size: "resize np pointpos = Inr pp0"
    using np by (simp add: resize_def pp0_def)
  have l0: "length pp0 = nat np"
    by (simp add: pp0_def)
  let ?I = "\<lambda>pp :: double2 list. length pp = nat np"
  have cell: "\<exists>pp'. rbind (vget (perm m) (j * num_points_x m + i)) (\<lambda>k. vput pp k c) = Inr pp' \<and> ?I pp'"
    if "0 \<le> j" "j < num_points_y m" "0 \<le> i" "i < num_points_x m" "?I pp" for j i pp c
  proof -
    from raster_in_range [OF that(3,4,1,2)]
    have p: "0 \<le> j * num_points_x m + i" "j * num_points_x m + i < int (length (perm m))"
      unfolding lp by simp_all
    then have "perm m ! nat (j * num_points_x m + i) \<in> set (perm m)"
      by simp
    with rng have k: "0 \<le> perm m ! nat (j * num_points_x m + i)"
      "perm m ! nat (j * num_points_x m + i) < np"
      unfolding np_def by auto
    with p that(5) show ?thesis
      by (simp add: vget_def vput_def rbind_def)
  qed
  have "\<exists>pp. forM [0..num_points_y m - 1] (\<lambda>j.
            let y = len_y m / real_of_int (global_nzones_y m) * real_of_int (j + zone_y_offset m)
            in forM [0..num_points_x m - 1] (\<lambda>i pointpos.
                 let x = len_x m / real_of_int (global_nzones_x m) * real_of_int (i + zone_x_offset m)
                 in rbind (vget (perm m) (j * num_points_x m + i)) (\<lambda>k. vput pointpos k (x, y))))
          pp0 = Inr pp \<and> ?I pp"
  proof (rule forM_total_invariant [where I = ?I, OF l0])
    fix j pp
    assume j: "j \<in> set [0..num_points_y m - 1]" and inv: "?I pp"
    show "\<exists>pp'. (let y = len_y m / real_of_int (global_nzones_y m) * real_of_int (j + zone_y_offset m)
            in forM [0..num_points_x m - 1] (\<lambda>i pointpos.
                 let x = len_x m / real_of_int (global_nzones_x m) * real_of_int (i + zone_x_offset m)
                 in rbind (vget (perm m) (j * num_points_x m + i)) (\<lambda>k. vput pointpos k (x, y)))) pp
          = Inr pp' \<and> ?I pp'"
      unfolding Let_def
    proof (rule forM_total_invariant [where I = ?I, OF inv])
      fix i pp1
      assume "i \<in> set [0..num_points_x m - 1]" and "?I pp1"
      with j show "\<exists>pp'. rbind (vget (perm m) (j * num_points_x m + i))
               (\<lambda>k. vput pp1 k (len_x m / real_of_int (global_nzones_x m) * real_of_int (i + zone_x_offset m),
                                 len_y m / real_of_int (global_nzones_y m) * real_of_int (j + zone_y_offset m)))
             = Inr pp' \<and> ?I pp'"
        by (intro cell) simp_all
    qed
  qed
  then show ?thesis
    unfolding rect_points_def np_def [symmetric] size rbind_Inr Let_def by blast
qed

lemma rect_zone_returns:
  assumes lp: "int (length (perm m)) = num_points_x m * num_points_y m"
    and px: "num_points_x m = nzones_x m + 1" and py: "num_points_y m = nzones_y m + 1"
    and j: "0 \<le> j" "j < nzones_y m" and i: "0 \<le> i" "i < nzones_x m"
  shows "\<exists>z'. rect_zone m j i z = Inr z'"
proof -
  define a where "a = num_points_x m"
  define b where "b = num_points_y m"
  have i0: "0 \<le> i" "i < a" and i1: "0 \<le> i + 1" "i + 1 < a"
    and j0: "0 \<le> j" "j < b" and j1: "0 \<le> j + 1" "j + 1 < b"
    using i j px py by (simp_all add: a_def b_def)
  have get: "vget (perm m) (q * a + p) = Inr (perm m ! nat (q * a + p))"
    if "0 \<le> p" "p < a" "0 \<le> q" "q < b" for p q
    using raster_in_range [OF that] lp by (simp add: vget_def a_def b_def)
  have e: "j * a + i + 1 = j * a + (i + 1)" "j * a + i + a + 1 = (j + 1) * a + (i + 1)"
    "j * a + i + a = (j + 1) * a + i" "(j + 1) * a + i + 1 = (j + 1) * a + (i + 1)"
    by (simp_all add: algebra_simps)
  have "rect_zone m j i z
      = Inr (push_zone [perm m ! nat (j * a + i), perm m ! nat (j * a + (i + 1)),
                        perm m ! nat ((j + 1) * a + (i + 1)), perm m ! nat ((j + 1) * a + i)] z)"
    unfolding rect_zone_def Let_def a_def [symmetric]
    by (simp only: e get [OF i0 j0] get [OF i1 j0] get [OF i1 j1] get [OF i0 j1] rbind_Inr)
  then show ?thesis by (rule exI)
qed

lemma generateRect_returns:
  assumes lp: "int (length (perm m)) = num_points_x m * num_points_y m"
    and rng: "set (perm m) \<subseteq> {0..<num_points_x m * num_points_y m}"
    and px: "num_points_x m = nzones_x m + 1" and py: "num_points_y m = nzones_y m + 1"
    and nzx: "0 \<le> nzones_x m" and nzy: "0 \<le> nzones_y m" and nz: "0 \<le> num_zones m"
  shows "\<exists>r. generateRect m pointpos z = Inr r"
proof -
  have "0 \<le> num_points_x m" "0 \<le> num_points_y m"
    using px py nzx nzy by simp_all
  from rect_points_returns [OF lp rng this] obtain pp where
    points: "rect_points m pointpos = Inr pp"
    by blast
  have "\<exists>z'. forM [0..nzones_y m - 1] (\<lambda>j. forM [0..nzones_x m - 1] (rect_zone m j)) z = Inr z'"
  proof (rule forM_total)
    fix j s
    assume j: "j \<in> set [0..nzones_y m - 1]"
    show "\<exists>s'. forM [0..nzones_x m - 1] (rect_zone m j) s = Inr s'"
    proof (rule forM_total)
      fix i t
      assume "i \<in> set [0..nzones_x m - 1]"
      with j show "\<exists>t'. rect_zone m j i t = Inr t'"
        by (intro rect_zone_returns [OF lp px py]) simp_all
    qed
  qed
  then obtain z' where
    "forM [0..nzones_y m - 1] (\<lambda>j. forM [0..nzones_x m - 1] (rect_zone m j)) z = Inr z'"
    by blast
  with points nz have "generateRect m pointpos z = Inr (pp, z')"
    by (simp add: generateRect_def reserving_def)
  then show ?thesis by (rule exI)
qed

lemma generatePie_returns:
  assumes px: "1 \<le> num_points_x m" and py: "1 \<le> num_points_y m" and nz: "0 \<le> num_zones m"
  shows "\<exists>r. generatePie m pointpos z = Inr r"
proof -
  have "0 \<le> num_points_x m * (num_points_y m - 1) + 1" "0 \<le> num_points_x m * num_points_y m"
    using px py by simp_all
  with nz have "generatePie m pointpos z
      = Inr (pie_points m pointpos,
             fold (\<lambda>j. fold (pie_zone m j) [0..nzones_x m - 1]) [0..nzones_y m - 1] z)"
    by (simp add: generatePie_def Let_def reserving_def)
  then show ?thesis by (rule exI)
qed

lemma hex_points_returns:
  assumes py: "0 \<le> num_points_y m"
  shows "\<exists>r. hex_points m pointpos = Inr r \<and> length (fst r) = nat (num_points_y m)"
proof -
  let ?I = "\<lambda>s :: int list \<times> double2 list. length (fst s) = nat (num_points_y m)"
  let ?r = "fold (\<lambda>j (pbase, pointpos).
                   (pbase[nat j := int (length pointpos)],
                    fold (\<lambda>i pointpos. pointpos @ hex_position m j i)
                      [0..num_points_x m - 1] pointpos))
                 [0..num_points_y m - 1] (replicate (nat (num_points_y m)) 0, pointpos)"
  have "?I ?r"
  proof (rule fold_preserves [where I = ?I])
    show "?I (replicate (nat (num_points_y m)) 0, pointpos)" by simp
  next
    fix j and s :: "int list \<times> double2 list"
    assume "?I s"
    then show "?I ((case s of (pbase, pointpos) \<Rightarrow>
                   (pbase[nat j := int (length pointpos)],
                    fold (\<lambda>i pointpos. pointpos @ hex_position m j i)
                      [0..num_points_x m - 1] pointpos)))"
      by (cases s) simp
  qed
  moreover have "hex_points m pointpos = Inr ?r"
    using py by (simp add: hex_points_def)
  ultimately show ?thesis by blast
qed

lemma generateHex_returns:
  assumes px: "0 \<le> num_points_x m" and py: "num_points_y m = nzones_y m + 1"
    and nzy: "0 \<le> nzones_y m" and nz: "0 \<le> num_zones m"
  shows "\<exists>r. generateHex m pointpos z = Inr r"
proof -
  have npy: "0 \<le> num_points_y m" using py nzy by simp
  from hex_points_returns [OF npy] obtain pbase pp where
    points: "hex_points m pointpos = Inr (pbase, pp)" "length pbase = nat (num_points_y m)"
    by (metis fst_conv surj_pair)
  have "\<exists>z'. forM [0..nzones_y m - 1] (hex_zone_row m pbase) z = Inr z'"
  proof (rule forM_total)
    fix j s
    assume "j \<in> set [0..nzones_y m - 1]"
    then have "0 \<le> j" "j < int (length pbase)" "0 \<le> j + 1" "j + 1 < int (length pbase)"
      using points(2) py by simp_all
    then have "vget pbase j = Inr (pbase ! nat j)" "vget pbase (j + 1) = Inr (pbase ! nat (j + 1))"
      by (simp_all add: vget_def)
    then have "\<exists>s'. hex_zone_row m pbase j s = Inr s'"
      unfolding hex_zone_row_def Let_def by (simp only: rbind_Inr) (rule exI, rule refl)
    then show "\<exists>s'. hex_zone_row m pbase j s = Inr s'" .
  qed
  then obtain z' where "forM [0..nzones_y m - 1] (hex_zone_row m pbase) z = Inr z'"
    by blast
  moreover have "0 \<le> 2 * num_points_x m * num_points_y m"
    using px npy by simp
  ultimately have "generateHex m pointpos z = Inr (pp, z')"
    using points(1) nz by (simp add: generateHex_def reserving_def)
  then show ?thesis by (rule exI)
qed

text \<open>
  Claim C6. Take an object of one of the three families in which the members hold what
  \<^verbatim>\<open>calcLocalConstants\<close> assigns to them: at least one zone in each direction, one more point
  than zones in each direction, \<open>num_zones\<close> the product of the two zone counts and \<^verbatim>\<open>perm\<close>
  the mu permutation of the local point grid; and let six times the number of grid points
  fit into an \<^verbatim>\<open>int\<close>, so that no size or index of the generators overflows. Then
  \<^verbatim>\<open>generate\<close>, called with empty connectivity vectors, returns, and the connectivity is well
  formed: with \<open>zonesize\<close> the vector that the family's generator filled, there are
  \<open>num_zones\<close> sizes and one more start offset, \<open>zonestart\<close> is non-decreasing,
  \<open>zonestart[z+1] - zonestart[z] = zonesize[z]\<close> for every zone,
  \<open>zonepoints.size() = zonestart[num_zones]\<close>, and the last entry is the terminal pointer
  \<open>zonestart[num_zones-1] + zonesize[num_zones-1]\<close> that \<^verbatim>\<open>generate\<close> appends.
\<close>

theorem generate_crs_well_formed:
  assumes fam: "meshtype m \<in> {''rect'', ''pie'', ''hex''}"
    and nzx: "1 \<le> nzones_x m" and nzy: "1 \<le> nzones_y m"
    and px: "num_points_x m = nzones_x m + 1" and py: "num_points_y m = nzones_y m + 1"
    and nz: "num_zones m = nzones_x m * nzones_y m"
    and prm: "muPermutation (num_points_x m) (num_points_y m) 1 1 = Inr (perm m)"
    and rng: "6 * (num_points_x m * num_points_y m) \<le> 2147483647"
  shows "\<exists>pp zonestart zonepoints zs zonesize.
           generate m pointpos [] [] = Inr (pp, zonestart, zonepoints)
           \<and> mesh_type_specific m pointpos ([], [], []) = Inr (pp, zs, zonesize, zonepoints)
           \<and> zonestart = zs @ [last zs + last zonesize]
           \<and> int (length zonesize) = num_zones m
           \<and> length zonestart = length zonesize + 1
           \<and> sorted zonestart
           \<and> (\<forall>z < length zonesize. zonestart ! Suc z - zonestart ! z = zonesize ! z)
           \<and> int (length zonepoints) = zonestart ! length zonesize
           \<and> zonestart ! length zonesize
               = zonestart ! (length zonesize - 1) + zonesize ! (length zonesize - 1)"
proof -
  have one: "(1::int) \<le> 1" by simp
  note b = muPermutation_bijection [OF nzx nzy one one prm [unfolded px py], folded px py]
  have sub: "set (perm m) \<subseteq> {0..<num_points_x m * num_points_y m}"
    using b(3) by simp
  have nn: "0 \<le> nzones_x m" "0 \<le> nzones_y m" "0 \<le> num_zones m"
    "0 \<le> num_points_x m" "1 \<le> num_points_x m" "1 \<le> num_points_y m"
    using nzx nzy nz px py by simp_all
  have "\<exists>r. mesh_type_specific m pointpos ([], [], []) = Inr r"
    using fam generateRect_returns [OF b(1) sub px py nn(1,2,3)]
      generatePie_returns [OF nn(5,6,3)] generateHex_returns [OF nn(4) py nn(2,3)]
    by (auto simp add: mesh_type_specific_def)
  then obtain pp zs zsz zp where
    spec: "mesh_type_specific m pointpos ([], [], []) = Inr (pp, zs, zsz, zp)"
    by (metis surj_pair)
  have inv: "crs (zs, zsz, zp) \<and> nzones (zs, zsz, zp)
               = nzones ([], [], []) + nat (nzones_x m) * nat (nzones_y m)"
    using fam spec generateRect_crs [OF _ crs_empty] generatePie_crs [OF _ crs_empty]
      generateHex_crs [OF _ crs_empty]
    by (auto simp add: mesh_type_specific_def split: if_splits)
  then have c: "crs (zs, zsz, zp)"
    and n: "length zsz = nat (nzones_x m) * nat (nzones_y m)"
    by (simp_all add: nzones_def)
  have "0 < nat (nzones_x m) * nat (nzones_y m)"
    using nzx nzy by simp
  with n have ne: "zsz \<noteq> []" by auto
  moreover from c have "length zs = length zsz" by (simp add: crs_def)
  ultimately have ne': "zs \<noteq> []" by auto
  have cnt: "int (length zsz) = num_zones m"
    using n nz nzx nzy by (simp add: nat_mult_distrib [symmetric])
  have run: "generate m pointpos [] [] = Inr (pp, zs @ [last zs + last zsz], zp)"
    using spec ne ne' by (simp add: generate_def vback_def)
  from crs_properties [OF c ne] spec run cnt show ?thesis
    by blast
qed

theorem generate_crs_well_formed_witness:
  "meshtype (projr (rank_mesh ''rect'' 2 1 1 1 0)) \<in> {''rect'', ''pie'', ''hex''}
   \<and> 1 \<le> nzones_x (projr (rank_mesh ''rect'' 2 1 1 1 0))
   \<and> 1 \<le> nzones_y (projr (rank_mesh ''rect'' 2 1 1 1 0))
   \<and> num_points_x (projr (rank_mesh ''rect'' 2 1 1 1 0)) = nzones_x (projr (rank_mesh ''rect'' 2 1 1 1 0)) + 1
   \<and> num_points_y (projr (rank_mesh ''rect'' 2 1 1 1 0)) = nzones_y (projr (rank_mesh ''rect'' 2 1 1 1 0)) + 1
   \<and> num_zones (projr (rank_mesh ''rect'' 2 1 1 1 0)) = nzones_x (projr (rank_mesh ''rect'' 2 1 1 1 0)) * nzones_y (projr (rank_mesh ''rect'' 2 1 1 1 0))
   \<and> muPermutation (num_points_x (projr (rank_mesh ''rect'' 2 1 1 1 0))) (num_points_y (projr (rank_mesh ''rect'' 2 1 1 1 0))) 1 1 = Inr (perm (projr (rank_mesh ''rect'' 2 1 1 1 0)))
   \<and> 6 * (num_points_x (projr (rank_mesh ''rect'' 2 1 1 1 0)) * num_points_y (projr (rank_mesh ''rect'' 2 1 1 1 0))) \<le> 2147483647
   \<and> generate (projr (rank_mesh ''rect'' 2 1 1 1 0)) [] [] []
       = Inr ([(0, 0), (0, 1), (1 / 2, 0), (1, 0), (1, 1), (1 / 2, 1)], [0, 4, 8],
              [0, 2, 5, 1, 2, 3, 4, 5])
   \<and> (\<exists>pp zonestart zonepoints zs zonesize.
           generate (projr (rank_mesh ''rect'' 2 1 1 1 0)) [] [] [] = Inr (pp, zonestart, zonepoints)
           \<and> mesh_type_specific (projr (rank_mesh ''rect'' 2 1 1 1 0)) [] ([], [], []) = Inr (pp, zs, zonesize, zonepoints)
           \<and> zonestart = zs @ [last zs + last zonesize]
           \<and> int (length zonesize) = num_zones (projr (rank_mesh ''rect'' 2 1 1 1 0))
           \<and> length zonestart = length zonesize + 1
           \<and> sorted zonestart
           \<and> (\<forall>z < length zonesize. zonestart ! Suc z - zonestart ! z = zonesize ! z)
           \<and> int (length zonepoints) = zonestart ! length zonesize
           \<and> zonestart ! length zonesize
               = zonestart ! (length zonesize - 1) + zonesize ! (length zonesize - 1))
   \<and> meshtype (projr (rank_mesh ''pie'' 2 2 1 1 0)) \<in> {''rect'', ''pie'', ''hex''}
   \<and> 1 \<le> nzones_x (projr (rank_mesh ''pie'' 2 2 1 1 0))
   \<and> 1 \<le> nzones_y (projr (rank_mesh ''pie'' 2 2 1 1 0))
   \<and> num_points_x (projr (rank_mesh ''pie'' 2 2 1 1 0)) = nzones_x (projr (rank_mesh ''pie'' 2 2 1 1 0)) + 1
   \<and> num_points_y (projr (rank_mesh ''pie'' 2 2 1 1 0)) = nzones_y (projr (rank_mesh ''pie'' 2 2 1 1 0)) + 1
   \<and> num_zones (projr (rank_mesh ''pie'' 2 2 1 1 0)) = nzones_x (projr (rank_mesh ''pie'' 2 2 1 1 0)) * nzones_y (projr (rank_mesh ''pie'' 2 2 1 1 0))
   \<and> muPermutation (num_points_x (projr (rank_mesh ''pie'' 2 2 1 1 0))) (num_points_y (projr (rank_mesh ''pie'' 2 2 1 1 0))) 1 1 = Inr (perm (projr (rank_mesh ''pie'' 2 2 1 1 0)))
   \<and> 6 * (num_points_x (projr (rank_mesh ''pie'' 2 2 1 1 0)) * num_points_y (projr (rank_mesh ''pie'' 2 2 1 1 0))) \<le> 2147483647
   \<and> generate (projr (rank_mesh ''pie'' 2 2 1 1 0)) [] [] []
       = Inr (pie_points (projr (rank_mesh ''pie'' 2 2 1 1 0)) [], [0, 3, 6, 10, 14],
              [0, 2, 1, 0, 3, 2, 1, 2, 5, 4, 2, 3, 6, 5])
   \<and> (\<exists>pp zonestart zonepoints zs zonesize.
           generate (projr (rank_mesh ''pie'' 2 2 1 1 0)) [] [] [] = Inr (pp, zonestart, zonepoints)
           \<and> mesh_type_specific (projr (rank_mesh ''pie'' 2 2 1 1 0)) [] ([], [], []) = Inr (pp, zs, zonesize, zonepoints)
           \<and> zonestart = zs @ [last zs + last zonesize]
           \<and> int (length zonesize) = num_zones (projr (rank_mesh ''pie'' 2 2 1 1 0))
           \<and> length zonestart = length zonesize + 1
           \<and> sorted zonestart
           \<and> (\<forall>z < length zonesize. zonestart ! Suc z - zonestart ! z = zonesize ! z)
           \<and> int (length zonepoints) = zonestart ! length zonesize
           \<and> zonestart ! length zonesize
               = zonestart ! (length zonesize - 1) + zonesize ! (length zonesize - 1))
   \<and> meshtype (projr (rank_mesh ''hex'' 2 2 1 1 0)) \<in> {''rect'', ''pie'', ''hex''}
   \<and> 1 \<le> nzones_x (projr (rank_mesh ''hex'' 2 2 1 1 0))
   \<and> 1 \<le> nzones_y (projr (rank_mesh ''hex'' 2 2 1 1 0))
   \<and> num_points_x (projr (rank_mesh ''hex'' 2 2 1 1 0)) = nzones_x (projr (rank_mesh ''hex'' 2 2 1 1 0)) + 1
   \<and> num_points_y (projr (rank_mesh ''hex'' 2 2 1 1 0)) = nzones_y (projr (rank_mesh ''hex'' 2 2 1 1 0)) + 1
   \<and> num_zones (projr (rank_mesh ''hex'' 2 2 1 1 0)) = nzones_x (projr (rank_mesh ''hex'' 2 2 1 1 0)) * nzones_y (projr (rank_mesh ''hex'' 2 2 1 1 0))
   \<and> muPermutation (num_points_x (projr (rank_mesh ''hex'' 2 2 1 1 0))) (num_points_y (projr (rank_mesh ''hex'' 2 2 1 1 0))) 1 1 = Inr (perm (projr (rank_mesh ''hex'' 2 2 1 1 0)))
   \<and> 6 * (num_points_x (projr (rank_mesh ''hex'' 2 2 1 1 0)) * num_points_y (projr (rank_mesh ''hex'' 2 2 1 1 0))) \<le> 2147483647
   \<and> map_sum id snd (generate (projr (rank_mesh ''hex'' 2 2 1 1 0)) [] [] [])
       = Inr ([0, 5, 9, 13, 18], [0, 1, 5, 4, 3, 1, 2, 6, 5, 3, 4, 8, 7, 4, 5, 6, 9, 8])
   \<and> (\<exists>pp zonestart zonepoints zs zonesize.
           generate (projr (rank_mesh ''hex'' 2 2 1 1 0)) [] [] [] = Inr (pp, zonestart, zonepoints)
           \<and> mesh_type_specific (projr (rank_mesh ''hex'' 2 2 1 1 0)) [] ([], [], []) = Inr (pp, zs, zonesize, zonepoints)
           \<and> zonestart = zs @ [last zs + last zonesize]
           \<and> int (length zonesize) = num_zones (projr (rank_mesh ''hex'' 2 2 1 1 0))
           \<and> length zonestart = length zonesize + 1
           \<and> sorted zonestart
           \<and> (\<forall>z < length zonesize. zonestart ! Suc z - zonestart ! z = zonesize ! z)
           \<and> int (length zonepoints) = zonestart ! length zonesize
           \<and> zonestart ! length zonesize
               = zonestart ! (length zonesize - 1) + zonesize ! (length zonesize - 1))"
proof -
  have rect: "(\<exists>pp zonestart zonepoints zs zonesize.
           generate (projr (rank_mesh ''rect'' 2 1 1 1 0)) [] [] [] = Inr (pp, zonestart, zonepoints)
           \<and> mesh_type_specific (projr (rank_mesh ''rect'' 2 1 1 1 0)) [] ([], [], []) = Inr (pp, zs, zonesize, zonepoints)
           \<and> zonestart = zs @ [last zs + last zonesize]
           \<and> int (length zonesize) = num_zones (projr (rank_mesh ''rect'' 2 1 1 1 0))
           \<and> length zonestart = length zonesize + 1
           \<and> sorted zonestart
           \<and> (\<forall>z < length zonesize. zonestart ! Suc z - zonestart ! z = zonesize ! z)
           \<and> int (length zonepoints) = zonestart ! length zonesize
           \<and> zonestart ! length zonesize
               = zonestart ! (length zonesize - 1) + zonesize ! (length zonesize - 1))"
    and rect_h: "meshtype (projr (rank_mesh ''rect'' 2 1 1 1 0)) \<in> {''rect'', ''pie'', ''hex''}" "1 \<le> nzones_x (projr (rank_mesh ''rect'' 2 1 1 1 0))" "1 \<le> nzones_y (projr (rank_mesh ''rect'' 2 1 1 1 0))" "num_points_x (projr (rank_mesh ''rect'' 2 1 1 1 0)) = nzones_x (projr (rank_mesh ''rect'' 2 1 1 1 0)) + 1" "num_points_y (projr (rank_mesh ''rect'' 2 1 1 1 0)) = nzones_y (projr (rank_mesh ''rect'' 2 1 1 1 0)) + 1" "num_zones (projr (rank_mesh ''rect'' 2 1 1 1 0)) = nzones_x (projr (rank_mesh ''rect'' 2 1 1 1 0)) * nzones_y (projr (rank_mesh ''rect'' 2 1 1 1 0))" "muPermutation (num_points_x (projr (rank_mesh ''rect'' 2 1 1 1 0))) (num_points_y (projr (rank_mesh ''rect'' 2 1 1 1 0))) 1 1 = Inr (perm (projr (rank_mesh ''rect'' 2 1 1 1 0)))" "6 * (num_points_x (projr (rank_mesh ''rect'' 2 1 1 1 0)) * num_points_y (projr (rank_mesh ''rect'' 2 1 1 1 0))) \<le> 2147483647"
    and rect_run: "generate (projr (rank_mesh ''rect'' 2 1 1 1 0)) [] [] []
       = Inr ([(0, 0), (0, 1), (1 / 2, 0), (1, 0), (1, 1), (1 / 2, 1)], [0, 4, 8],
              [0, 2, 5, 1, 2, 3, 4, 5])"
  proof -
    let ?M = "projr (rank_mesh ''rect'' 2 1 1 1 0)"
    have h: "meshtype ?M \<in> {''rect'', ''pie'', ''hex''}" "1 \<le> nzones_x ?M" "1 \<le> nzones_y ?M" "num_points_x ?M = nzones_x ?M + 1" "num_points_y ?M = nzones_y ?M + 1" "num_zones ?M = nzones_x ?M * nzones_y ?M" "muPermutation (num_points_x ?M) (num_points_y ?M) 1 1 = Inr (perm ?M)" "6 * (num_points_x ?M * num_points_y ?M) \<le> 2147483647"
      by code_simp+
    from generate_crs_well_formed [OF h, of "[]"]
    show "(\<exists>pp zonestart zonepoints zs zonesize.
           generate ?M [] [] [] = Inr (pp, zonestart, zonepoints)
           \<and> mesh_type_specific ?M [] ([], [], []) = Inr (pp, zs, zonesize, zonepoints)
           \<and> zonestart = zs @ [last zs + last zonesize]
           \<and> int (length zonesize) = num_zones ?M
           \<and> length zonestart = length zonesize + 1
           \<and> sorted zonestart
           \<and> (\<forall>z < length zonesize. zonestart ! Suc z - zonestart ! z = zonesize ! z)
           \<and> int (length zonepoints) = zonestart ! length zonesize
           \<and> zonestart ! length zonesize
               = zonestart ! (length zonesize - 1) + zonesize ! (length zonesize - 1))" .
    show "meshtype ?M \<in> {''rect'', ''pie'', ''hex''}" "1 \<le> nzones_x ?M" "1 \<le> nzones_y ?M" "num_points_x ?M = nzones_x ?M + 1" "num_points_y ?M = nzones_y ?M + 1" "num_zones ?M = nzones_x ?M * nzones_y ?M" "muPermutation (num_points_x ?M) (num_points_y ?M) 1 1 = Inr (perm ?M)" "6 * (num_points_x ?M * num_points_y ?M) \<le> 2147483647"
      by (rule h)+
    have tag: "meshtype ?M = ''rect''"
      by code_simp
    have "generateRect ?M [] ([], [], [])
       = Inr ([(0, 0), (0, 1), (1 / 2, 0), (1, 0), (1, 1), (1 / 2, 1)], [0, 4], [4, 4],
              [0, 2, 5, 1, 2, 3, 4, 5])"
      by code_simp
    with tag show "generate ?M [] [] []
       = Inr ([(0, 0), (0, 1), (1 / 2, 0), (1, 0), (1, 1), (1 / 2, 1)], [0, 4, 8],
              [0, 2, 5, 1, 2, 3, 4, 5])"
      by (simp add: generate_def mesh_type_specific_def vback_def)
  qed
  have pie: "(\<exists>pp zonestart zonepoints zs zonesize.
           generate (projr (rank_mesh ''pie'' 2 2 1 1 0)) [] [] [] = Inr (pp, zonestart, zonepoints)
           \<and> mesh_type_specific (projr (rank_mesh ''pie'' 2 2 1 1 0)) [] ([], [], []) = Inr (pp, zs, zonesize, zonepoints)
           \<and> zonestart = zs @ [last zs + last zonesize]
           \<and> int (length zonesize) = num_zones (projr (rank_mesh ''pie'' 2 2 1 1 0))
           \<and> length zonestart = length zonesize + 1
           \<and> sorted zonestart
           \<and> (\<forall>z < length zonesize. zonestart ! Suc z - zonestart ! z = zonesize ! z)
           \<and> int (length zonepoints) = zonestart ! length zonesize
           \<and> zonestart ! length zonesize
               = zonestart ! (length zonesize - 1) + zonesize ! (length zonesize - 1))"
    and pie_h: "meshtype (projr (rank_mesh ''pie'' 2 2 1 1 0)) \<in> {''rect'', ''pie'', ''hex''}" "1 \<le> nzones_x (projr (rank_mesh ''pie'' 2 2 1 1 0))" "1 \<le> nzones_y (projr (rank_mesh ''pie'' 2 2 1 1 0))" "num_points_x (projr (rank_mesh ''pie'' 2 2 1 1 0)) = nzones_x (projr (rank_mesh ''pie'' 2 2 1 1 0)) + 1" "num_points_y (projr (rank_mesh ''pie'' 2 2 1 1 0)) = nzones_y (projr (rank_mesh ''pie'' 2 2 1 1 0)) + 1" "num_zones (projr (rank_mesh ''pie'' 2 2 1 1 0)) = nzones_x (projr (rank_mesh ''pie'' 2 2 1 1 0)) * nzones_y (projr (rank_mesh ''pie'' 2 2 1 1 0))" "muPermutation (num_points_x (projr (rank_mesh ''pie'' 2 2 1 1 0))) (num_points_y (projr (rank_mesh ''pie'' 2 2 1 1 0))) 1 1 = Inr (perm (projr (rank_mesh ''pie'' 2 2 1 1 0)))" "6 * (num_points_x (projr (rank_mesh ''pie'' 2 2 1 1 0)) * num_points_y (projr (rank_mesh ''pie'' 2 2 1 1 0))) \<le> 2147483647"
    and pie_run: "generate (projr (rank_mesh ''pie'' 2 2 1 1 0)) [] [] []
       = Inr (pie_points (projr (rank_mesh ''pie'' 2 2 1 1 0)) [], [0, 3, 6, 10, 14],
              [0, 2, 1, 0, 3, 2, 1, 2, 5, 4, 2, 3, 6, 5])"
  proof -
    let ?M = "projr (rank_mesh ''pie'' 2 2 1 1 0)"
    have h: "meshtype ?M \<in> {''rect'', ''pie'', ''hex''}" "1 \<le> nzones_x ?M" "1 \<le> nzones_y ?M" "num_points_x ?M = nzones_x ?M + 1" "num_points_y ?M = nzones_y ?M + 1" "num_zones ?M = nzones_x ?M * nzones_y ?M" "muPermutation (num_points_x ?M) (num_points_y ?M) 1 1 = Inr (perm ?M)" "6 * (num_points_x ?M * num_points_y ?M) \<le> 2147483647"
      by code_simp+
    from generate_crs_well_formed [OF h, of "[]"]
    show "(\<exists>pp zonestart zonepoints zs zonesize.
           generate ?M [] [] [] = Inr (pp, zonestart, zonepoints)
           \<and> mesh_type_specific ?M [] ([], [], []) = Inr (pp, zs, zonesize, zonepoints)
           \<and> zonestart = zs @ [last zs + last zonesize]
           \<and> int (length zonesize) = num_zones ?M
           \<and> length zonestart = length zonesize + 1
           \<and> sorted zonestart
           \<and> (\<forall>z < length zonesize. zonestart ! Suc z - zonestart ! z = zonesize ! z)
           \<and> int (length zonepoints) = zonestart ! length zonesize
           \<and> zonestart ! length zonesize
               = zonestart ! (length zonesize - 1) + zonesize ! (length zonesize - 1))" .
    show "meshtype ?M \<in> {''rect'', ''pie'', ''hex''}" "1 \<le> nzones_x ?M" "1 \<le> nzones_y ?M" "num_points_x ?M = nzones_x ?M + 1" "num_points_y ?M = nzones_y ?M + 1" "num_zones ?M = nzones_x ?M * nzones_y ?M" "muPermutation (num_points_x ?M) (num_points_y ?M) 1 1 = Inr (perm ?M)" "6 * (num_points_x ?M * num_points_y ?M) \<le> 2147483647"
      by (rule h)+
    show "generate ?M [] [] []
       = Inr (pie_points ?M [], [0, 3, 6, 10, 14],
              [0, 2, 1, 0, 3, 2, 1, 2, 5, 4, 2, 3, 6, 5])"
    proof -
      have fields: "zone_y_offset ?M = 0" "num_points_y ?M = 3" "num_points_x ?M = 3"
        "nzones_x ?M = 2" "nzones_y ?M = 2" "num_zones ?M = 4" "proc_index_y ?M = 0"
        "meshtype ?M = ''pie''"
        by code_simp+
      have ranges: "[0..(1::int)] = [0, 1]"
        by code_simp
      show ?thesis
        by (simp add: generate_def mesh_type_specific_def vback_def generatePie_def reserving_def
            fields ranges pie_zone_def pie_vertices_def push_zone_def)
    qed
  qed
  have hex: "(\<exists>pp zonestart zonepoints zs zonesize.
           generate (projr (rank_mesh ''hex'' 2 2 1 1 0)) [] [] [] = Inr (pp, zonestart, zonepoints)
           \<and> mesh_type_specific (projr (rank_mesh ''hex'' 2 2 1 1 0)) [] ([], [], []) = Inr (pp, zs, zonesize, zonepoints)
           \<and> zonestart = zs @ [last zs + last zonesize]
           \<and> int (length zonesize) = num_zones (projr (rank_mesh ''hex'' 2 2 1 1 0))
           \<and> length zonestart = length zonesize + 1
           \<and> sorted zonestart
           \<and> (\<forall>z < length zonesize. zonestart ! Suc z - zonestart ! z = zonesize ! z)
           \<and> int (length zonepoints) = zonestart ! length zonesize
           \<and> zonestart ! length zonesize
               = zonestart ! (length zonesize - 1) + zonesize ! (length zonesize - 1))"
    and hex_h: "meshtype (projr (rank_mesh ''hex'' 2 2 1 1 0)) \<in> {''rect'', ''pie'', ''hex''}" "1 \<le> nzones_x (projr (rank_mesh ''hex'' 2 2 1 1 0))" "1 \<le> nzones_y (projr (rank_mesh ''hex'' 2 2 1 1 0))" "num_points_x (projr (rank_mesh ''hex'' 2 2 1 1 0)) = nzones_x (projr (rank_mesh ''hex'' 2 2 1 1 0)) + 1" "num_points_y (projr (rank_mesh ''hex'' 2 2 1 1 0)) = nzones_y (projr (rank_mesh ''hex'' 2 2 1 1 0)) + 1" "num_zones (projr (rank_mesh ''hex'' 2 2 1 1 0)) = nzones_x (projr (rank_mesh ''hex'' 2 2 1 1 0)) * nzones_y (projr (rank_mesh ''hex'' 2 2 1 1 0))" "muPermutation (num_points_x (projr (rank_mesh ''hex'' 2 2 1 1 0))) (num_points_y (projr (rank_mesh ''hex'' 2 2 1 1 0))) 1 1 = Inr (perm (projr (rank_mesh ''hex'' 2 2 1 1 0)))" "6 * (num_points_x (projr (rank_mesh ''hex'' 2 2 1 1 0)) * num_points_y (projr (rank_mesh ''hex'' 2 2 1 1 0))) \<le> 2147483647"
    and hex_run: "map_sum id snd (generate (projr (rank_mesh ''hex'' 2 2 1 1 0)) [] [] [])
       = Inr ([0, 5, 9, 13, 18], [0, 1, 5, 4, 3, 1, 2, 6, 5, 3, 4, 8, 7, 4, 5, 6, 9, 8])"
  proof -
    let ?M = "projr (rank_mesh ''hex'' 2 2 1 1 0)"
    have h: "meshtype ?M \<in> {''rect'', ''pie'', ''hex''}" "1 \<le> nzones_x ?M" "1 \<le> nzones_y ?M" "num_points_x ?M = nzones_x ?M + 1" "num_points_y ?M = nzones_y ?M + 1" "num_zones ?M = nzones_x ?M * nzones_y ?M" "muPermutation (num_points_x ?M) (num_points_y ?M) 1 1 = Inr (perm ?M)" "6 * (num_points_x ?M * num_points_y ?M) \<le> 2147483647"
      by code_simp+
    from generate_crs_well_formed [OF h, of "[]"]
    show "(\<exists>pp zonestart zonepoints zs zonesize.
           generate ?M [] [] [] = Inr (pp, zonestart, zonepoints)
           \<and> mesh_type_specific ?M [] ([], [], []) = Inr (pp, zs, zonesize, zonepoints)
           \<and> zonestart = zs @ [last zs + last zonesize]
           \<and> int (length zonesize) = num_zones ?M
           \<and> length zonestart = length zonesize + 1
           \<and> sorted zonestart
           \<and> (\<forall>z < length zonesize. zonestart ! Suc z - zonestart ! z = zonesize ! z)
           \<and> int (length zonepoints) = zonestart ! length zonesize
           \<and> zonestart ! length zonesize
               = zonestart ! (length zonesize - 1) + zonesize ! (length zonesize - 1))" .
    show "meshtype ?M \<in> {''rect'', ''pie'', ''hex''}" "1 \<le> nzones_x ?M" "1 \<le> nzones_y ?M" "num_points_x ?M = nzones_x ?M + 1" "num_points_y ?M = nzones_y ?M + 1" "num_zones ?M = nzones_x ?M * nzones_y ?M" "muPermutation (num_points_x ?M) (num_points_y ?M) 1 1 = Inr (perm ?M)" "6 * (num_points_x ?M * num_points_y ?M) \<le> 2147483647"
      by (rule h)+
    have tag: "meshtype ?M = ''hex''"
      by code_simp
    have "generateHex ?M [] ([], [], [])
       = Inr ([(0, 0), (1 / 2, 0), (1, 0), (0, 1 / 2), (1 / 3, 2 / 3), (2 / 3, 1 / 3), (1, 1 / 2),
               (0, 1), (1 / 2, 1), (1, 1)],
              [0, 5, 9, 13], [5, 4, 4, 5], [0, 1, 5, 4, 3, 1, 2, 6, 5, 3, 4, 8, 7, 4, 5, 6, 9, 8])"
      by code_simp
    with tag show "map_sum id snd (generate ?M [] [] [])
       = Inr ([0, 5, 9, 13, 18], [0, 1, 5, 4, 3, 1, 2, 6, 5, 3, 4, 8, 7, 4, 5, 6, 9, 8])"
      by (simp add: generate_def mesh_type_specific_def vback_def)
  qed
  from rect_h rect_run rect pie_h pie_run pie hex_h hex_run hex show ?thesis
    by (intro conjI)
qed

end
